theory Spec2Isabelle
  imports Complex_Main
begin

section \<open>Crew scheduling: data model\<close>

text \<open>
  The input of the assignment engine is a sequence of flights, each a dictionary with the
  keys \<open>flight_id\<close> and \<open>aircraft_id\<close>. The dictionary returned by
  \<open>_assign_crew_to_flight\<close> carries the same two keys and adds the crew, so the
  assignment record extends the flight record. A captain or first officer slot holds a
  crew id or Python's \<open>None\<close>.
\<close>

record flight =
  flight_id :: string
  aircraft_id :: string

record assignment = flight +
  captain :: "string option"
  first_officer :: "string option"
  attendants :: "string list"
  crew_count :: nat
  assignment_time :: int

text \<open>
  The issue dictionaries built by \<open>_check_schedule_issues\<close>; the value of the key
  \<open>type\<close> is the constructor. Severities and role names are the source's strings.
\<close>

datatype issue =
  DOUBLE_BOOKING string "string list" string
| CREW_SHORTAGE string string string

text \<open>
  Python truth value of \<open>assignment.get(role)\<close>: \<open>None\<close> and the empty string are
  false, every other string is true.
\<close>

fun truthy :: "string option \<Rightarrow> bool" where
  "truthy None = False"
| "truthy (Some s) = (s \<noteq> [])"

section \<open>Conflict detector (\<open>CrewOptimizer._check_schedule_issues\<close>)\<close>

definition assignment_get :: "assignment \<Rightarrow> string \<Rightarrow> string option" where
  "assignment_get a key =
     (if key = ''captain'' then captain a
      else if key = ''first_officer'' then first_officer a
      else None)"

text \<open>
  The state of the first loop: the dictionary \<open>crew_assignments\<close> and the list
  \<open>issues\<close>, which only ever grows at its end.
\<close>

type_synonym detector_state = "(string \<rightharpoonup> string) \<times> issue list"

text \<open>Body of \<open>for crew_role in ['captain', 'first_officer']\<close>.\<close>

definition pilot_role_step :: "assignment \<Rightarrow> detector_state \<Rightarrow> string \<Rightarrow> detector_state" where
  "pilot_role_step a st crew_role =
     (case st of (crew_assignments, issues) \<Rightarrow>
        (case assignment_get a crew_role of
           None \<Rightarrow> st
         | Some crew \<Rightarrow>
             if crew = [] then st
             else (crew_assignments(crew \<mapsto> flight_id a),
                   (case crew_assignments crew of
                      None \<Rightarrow> issues
                    | Some seen \<Rightarrow>
                        issues @ [DOUBLE_BOOKING crew [seen, flight_id a] ''HIGH'']))))"

text \<open>Body of \<open>for attendant_id in assignment.get('attendants', [])\<close>.\<close>

definition attendant_step :: "assignment \<Rightarrow> detector_state \<Rightarrow> string \<Rightarrow> detector_state" where
  "attendant_step a st attendant_id =
     (case st of (crew_assignments, issues) \<Rightarrow>
        (crew_assignments(attendant_id \<mapsto> flight_id a),
         (case crew_assignments attendant_id of
            None \<Rightarrow> issues
          | Some seen \<Rightarrow>
              issues @ [DOUBLE_BOOKING attendant_id [seen, flight_id a] ''MEDIUM''])))"

text \<open>Body of the first \<open>for assignment in assignments\<close>.\<close>

definition double_booking_step :: "detector_state \<Rightarrow> assignment \<Rightarrow> detector_state" where
  "double_booking_step st a =
     foldl (attendant_step a)
       (foldl (pilot_role_step a) st [''captain'', ''first_officer''])
       (attendants a)"

text \<open>Body of the second \<open>for assignment in assignments\<close>.\<close>

definition shortage_step :: "issue list \<Rightarrow> assignment \<Rightarrow> issue list" where
  "shortage_step issues a =
     (if \<not> truthy (captain a) \<or> \<not> truthy (first_officer a)
      then issues @ [CREW_SHORTAGE (flight_id a)
                       (if \<not> truthy (captain a) then ''captain'' else ''first_officer'')
                       ''CRITICAL'']
      else issues)"

definition check_schedule_issues :: "assignment list \<Rightarrow> issue list" where
  "check_schedule_issues assignments =
     foldl shortage_step
       (snd (foldl double_booking_step (Map.empty, []) assignments))
       assignments"

section \<open>Crew assignment engine (\<open>CrewOptimizer.optimize_schedule\<close>)\<close>

text \<open>
  Exceptions of the Python runtime that the modelled code can meet. The first six are
  instances of \<open>Exception\<close>; \<open>SystemExit\<close> and \<open>KeyboardInterrupt\<close> derive from
  \<open>BaseException\<close> only, so a handler \<open>except Exception\<close> lets them pass.
\<close>

datatype py_exception =
  TypeError
| KeyError string
| AttributeError string
| IndexError
| ValueError
| OtherException string
| SystemExit
| KeyboardInterrupt

fun is_Exception :: "py_exception \<Rightarrow> bool" where
  "is_Exception SystemExit = False"
| "is_Exception KeyboardInterrupt = False"
| "is_Exception e = True"

text \<open>
  A crew dictionary of \<open>_initialize_crew\<close>, with the keys the engine reads or writes.
  A point in time (\<open>datetime\<close>) is a whole number of microseconds, and so is a
  \<open>timedelta\<close>.
\<close>

record crew_member =
  crew_id :: string
  role :: string
  rest_hours :: int
  next_available :: int
  assigned_flights :: "string list"

definition hours :: "int \<Rightarrow> int" where
  "hours h = h * 3600000000"

text \<open>
  The optimizer object together with the two sources the engine consults from outside:
  \<open>now_calls\<close> counts the calls of \<open>datetime.now()\<close> so far, \<open>random_calls\<close> the draws
  taken from the random generator so far. The \<open>k\<close>-th call of \<open>datetime.now()\<close> returns
  \<open>clock k\<close>, the \<open>k\<close>-th draw is \<open>rng k\<close>; both functions are arbitrary, so every run of
  the program is the model at some \<open>clock\<close> and \<open>rng\<close>.
\<close>

record optimizer =
  crew_members :: "crew_member list"
  now_calls :: nat
  random_calls :: nat

text \<open>
  \<open>random.choice(seq)\<close>: \<open>IndexError\<close> on an empty sequence, else one element.
\<close>

definition random_choice :: "(nat \<Rightarrow> nat) \<Rightarrow> nat \<Rightarrow> 'a list \<Rightarrow> py_exception + ('a \<times> nat)" where
  "random_choice rng r seq =
     (if seq = [] then Inl IndexError else Inr (seq ! (rng r mod length seq), Suc r))"

text \<open>
  \<open>random.sample(population, k)\<close>: \<open>ValueError\<close> when \<open>k\<close> exceeds the population, else
  \<open>k\<close> elements at pairwise different positions, in the order they are drawn.
\<close>

fun sample_from :: "(nat \<Rightarrow> nat) \<Rightarrow> nat \<Rightarrow> 'a list \<Rightarrow> nat \<Rightarrow> 'a list \<times> nat" where
  "sample_from rng r pool 0 = ([], r)"
| "sample_from rng r [] (Suc k) = ([], r)"
| "sample_from rng r (p # ps) (Suc k) =
     (let i = rng r mod length (p # ps);
          rest = sample_from rng (Suc r) (take i (p # ps) @ drop (Suc i) (p # ps)) k
      in ((p # ps) ! i # fst rest, snd rest))"

definition random_sample ::
  "(nat \<Rightarrow> nat) \<Rightarrow> nat \<Rightarrow> 'a list \<Rightarrow> nat \<Rightarrow> py_exception + ('a list \<times> nat)" where
  "random_sample rng r population k =
     (if length population < k then Inl ValueError else Inr (sample_from rng r population k))"

text \<open>\<open>random.randint(a, b)\<close> with \<open>a \<le> b\<close>.\<close>

definition random_randint :: "(nat \<Rightarrow> nat) \<Rightarrow> nat \<Rightarrow> int \<Rightarrow> int \<Rightarrow> int \<times> nat" where
  "random_randint rng r a b = (a + int (rng r mod nat (b - a + 1)), Suc r)"

text \<open>
  The two list comprehensions. The crew dictionaries are shared objects that the engine
  later mutates through the references it selected, so a pool is the list of positions
  in \<open>crew_members\<close>. The condition is a chain of \<open>and\<close>: \<open>datetime.now()\<close> is called
  for a member only when the role matches. \<open>i\<close> is the position of the head of the list,
  \<open>n\<close> the number of clock calls so far.
\<close>

fun available_pilots_from ::
  "(nat \<Rightarrow> int) \<Rightarrow> crew_member list \<Rightarrow> nat \<Rightarrow> nat \<Rightarrow> nat list \<times> nat" where
  "available_pilots_from clock [] i n = ([], n)"
| "available_pilots_from clock (c # cs) i n =
     (if role c = ''pilot''
      then (let rest = available_pilots_from clock cs (Suc i) (Suc n)
            in if next_available c \<le> clock n \<and> rest_hours c \<le> 8
               then (i # fst rest, snd rest) else rest)
      else available_pilots_from clock cs (Suc i) n)"

fun available_attendants_from ::
  "(nat \<Rightarrow> int) \<Rightarrow> crew_member list \<Rightarrow> nat \<Rightarrow> nat \<Rightarrow> nat list \<times> nat" where
  "available_attendants_from clock [] i n = ([], n)"
| "available_attendants_from clock (c # cs) i n =
     (if role c = ''attendant''
      then (let rest = available_attendants_from clock cs (Suc i) (Suc n)
            in if next_available c \<le> clock n then (i # fst rest, snd rest) else rest)
      else available_attendants_from clock cs (Suc i) n)"

definition pilot_scan :: "(nat \<Rightarrow> int) \<Rightarrow> optimizer \<Rightarrow> nat list \<times> nat" where
  "pilot_scan clock st = available_pilots_from clock (crew_members st) 0 (now_calls st)"

definition attendant_scan :: "(nat \<Rightarrow> int) \<Rightarrow> optimizer \<Rightarrow> nat list \<times> nat" where
  "attendant_scan clock st =
     available_attendants_from clock (crew_members st) 0 (snd (pilot_scan clock st))"

text \<open>
  The selection (\<open># Select crew\<close> and the draw of the flight duration): captain, first
  officer and attendants as positions, the duration in hours, and the number of draws
  taken afterwards.
\<close>

record selection =
  sel_captain :: "nat option"
  sel_first_officer :: "nat option"
  sel_attendants :: "nat list"
  sel_duration :: int
  sel_draws :: nat

definition select_crew ::
  "(nat \<Rightarrow> nat) \<Rightarrow> nat \<Rightarrow> nat list \<Rightarrow> nat list \<Rightarrow> py_exception + selection" where
  "select_crew rng r0 available_pilots available_attendants =
     (case (if available_pilots \<noteq> []
            then (case random_choice rng r0 (take 5 available_pilots) of
                    Inl e \<Rightarrow> Inl e
                  | Inr (c, r) \<Rightarrow> Inr (Some c, r))
            else Inr (None, r0)) of
        Inl e \<Rightarrow> Inl e
      | Inr (cap, r1) \<Rightarrow>
          (case (if 5 < length available_pilots
                 then (case random_choice rng r1 (drop 5 available_pilots) of
                         Inl e \<Rightarrow> Inl e
                       | Inr (c, r) \<Rightarrow> Inr (Some c, r))
                 else Inr (None, r1)) of
             Inl e \<Rightarrow> Inl e
           | Inr (fo, r2) \<Rightarrow>
               (case random_sample rng r2 available_attendants
                       (min 4 (length available_attendants)) of
                  Inl e \<Rightarrow> Inl e
                | Inr (atts, r3) \<Rightarrow>
                    (case random_randint rng r3 1 6 of
                       (flight_duration, r4) \<Rightarrow>
                         Inr \<lparr>sel_captain = cap, sel_first_officer = fo,
                              sel_attendants = atts, sel_duration = flight_duration,
                              sel_draws = r4\<rparr>))))"

text \<open>
  \<open>member['next_available'] = datetime.now() + rest_period\<close> followed by
  \<open>member['assigned_flights'].append(flight_id)\<close>, on the member at position \<open>i\<close>; the
  state is the crew list and the number of clock calls.
\<close>

definition update_member ::
  "(nat \<Rightarrow> int) \<Rightarrow> int \<Rightarrow> string \<Rightarrow> crew_member list \<times> nat \<Rightarrow> nat \<Rightarrow> crew_member list \<times> nat" where
  "update_member clock rest_period fid st i =
     (case st of (crew, n) \<Rightarrow>
        (crew[i := (crew ! i)\<lparr>next_available := clock n + rest_period,
                               assigned_flights := assigned_flights (crew ! i) @ [fid]\<rparr>],
         Suc n))"

definition update_optional ::
  "(nat \<Rightarrow> int) \<Rightarrow> int \<Rightarrow> string \<Rightarrow> crew_member list \<times> nat \<Rightarrow> nat option \<Rightarrow> crew_member list \<times> nat" where
  "update_optional clock rest_period fid st member =
     (case member of None \<Rightarrow> st | Some i \<Rightarrow> update_member clock rest_period fid st i)"

text \<open>\<open># Update crew availability\<close>: captain, first officer, then each attendant.\<close>

definition update_availability ::
  "(nat \<Rightarrow> int) \<Rightarrow> string \<Rightarrow> selection \<Rightarrow> crew_member list \<times> nat \<Rightarrow> crew_member list \<times> nat" where
  "update_availability clock fid sel st =
     (let rest_period = hours (sel_duration sel + 10)
      in foldl (update_member clock rest_period fid)
           (update_optional clock rest_period fid
              (update_optional clock rest_period fid st (sel_captain sel))
              (sel_first_officer sel))
           (sel_attendants sel))"

definition assign_crew_to_flight ::
  "(nat \<Rightarrow> int) \<Rightarrow> (nat \<Rightarrow> nat) \<Rightarrow> optimizer \<Rightarrow> flight \<Rightarrow> py_exception + (assignment \<times> optimizer)" where
  "assign_crew_to_flight clock rng st fl =
     (case select_crew rng (random_calls st) (fst (pilot_scan clock st))
             (fst (attendant_scan clock st)) of
        Inl e \<Rightarrow> Inl e
      | Inr sel \<Rightarrow>
          (case update_availability clock (flight_id fl) sel
                  (crew_members st, snd (attendant_scan clock st)) of
             (crew, n) \<Rightarrow>
               Inr (\<lparr>flight_id = flight_id fl,
                     aircraft_id = aircraft_id fl,
                     captain = map_option (\<lambda>i. crew_id (crew ! i)) (sel_captain sel),
                     first_officer = map_option (\<lambda>i. crew_id (crew ! i)) (sel_first_officer sel),
                     attendants = map (\<lambda>i. crew_id (crew ! i)) (sel_attendants sel),
                     crew_count = length (sel_attendants sel)
                                  + (if sel_captain sel \<noteq> None then 1 else 0)
                                  + (if sel_first_officer sel \<noteq> None then 1 else 0),
                     assignment_time = clock n\<rparr>,
                    \<lparr>crew_members = crew, now_calls = Suc n,
                     random_calls = sel_draws sel\<rparr>)))"

text \<open>The loop \<open>for flight in flights_data\<close> of \<open>optimize_schedule\<close>.\<close>

fun assign_all ::
  "(nat \<Rightarrow> int) \<Rightarrow> (nat \<Rightarrow> nat) \<Rightarrow> optimizer \<Rightarrow> flight list
   \<Rightarrow> py_exception + (assignment list \<times> optimizer)" where
  "assign_all clock rng st [] = Inr ([], st)"
| "assign_all clock rng st (fl # fls) =
     (case assign_crew_to_flight clock rng st fl of
        Inl e \<Rightarrow> Inl e
      | Inr (a, st') \<Rightarrow>
          (case assign_all clock rng st' fls of
             Inl e \<Rightarrow> Inl e
           | Inr (as, st'') \<Rightarrow> Inr (a # as, st'')))"

text \<open>
  \<open>_generate_summary\<close>. The dictionary \<open>crew_utilization\<close> counts the occurrences of
  each crew id, in the order in which the ids are first met; a pilot slot counts when its
  value is true. The average is the exact quotient, of which the source computes the
  floating-point value; \<open>avg\<close> and \<open>max\<close> are 0 when no crew was utilized.
\<close>

fun count_crew :: "(string \<times> nat) list \<Rightarrow> string \<Rightarrow> (string \<times> nat) list" where
  "count_crew [] crew = [(crew, 1)]"
| "count_crew ((c, n) # rest) crew =
     (if c = crew then (c, n + 1) # rest else (c, n) # count_crew rest crew)"

definition count_pilot :: "assignment \<Rightarrow> (string \<times> nat) list \<Rightarrow> string \<Rightarrow> (string \<times> nat) list" where
  "count_pilot a crew_utilization crew_role =
     (case assignment_get a crew_role of
        None \<Rightarrow> crew_utilization
      | Some crew \<Rightarrow> if crew = [] then crew_utilization else count_crew crew_utilization crew)"

definition count_assignment :: "(string \<times> nat) list \<Rightarrow> assignment \<Rightarrow> (string \<times> nat) list" where
  "count_assignment crew_utilization a =
     foldl count_crew
       (foldl (count_pilot a) crew_utilization [''captain'', ''first_officer''])
       (attendants a)"

record summary =
  total_flights_scheduled :: nat
  total_crew_utilized :: nat
  avg_flights_per_crew :: rat
  max_flights_per_crew :: nat

definition generate_summary :: "assignment list \<Rightarrow> summary" where
  "generate_summary as =
     (let crew_utilization = foldl count_assignment [] as;
          counts = map snd crew_utilization
      in \<lparr>total_flights_scheduled = length as,
          total_crew_utilized = length crew_utilization,
          avg_flights_per_crew =
            (if crew_utilization = [] then 0
             else of_nat (sum_list counts) / of_nat (length crew_utilization)),
          max_flights_per_crew = (if crew_utilization = [] then 0 else foldr max counts 0)\<rparr>)"

text \<open>The result dictionary of \<open>optimize_schedule\<close>.\<close>

record schedule_result =
  assignments :: "assignment list"
  issues :: "issue list"
  summary :: summary

definition optimize_schedule ::
  "(nat \<Rightarrow> int) \<Rightarrow> (nat \<Rightarrow> nat) \<Rightarrow> optimizer \<Rightarrow> flight list
   \<Rightarrow> py_exception + (schedule_result \<times> optimizer)" where
  "optimize_schedule clock rng st flights_data =
     (case assign_all clock rng st flights_data of
        Inl e \<Rightarrow> Inl e
      | Inr (as, st') \<Rightarrow>
          Inr (\<lparr>assignments = as, issues = check_schedule_issues as,
                summary = generate_summary as\<rparr>, st'))"

text \<open>
  The optimizer states a batch passes through: the state each flight is assigned from,
  and the state after the last flight.
\<close>

fun batch_states ::
  "(nat \<Rightarrow> int) \<Rightarrow> (nat \<Rightarrow> nat) \<Rightarrow> optimizer \<Rightarrow> flight list \<Rightarrow> optimizer list" where
  "batch_states clock rng st [] = [st]"
| "batch_states clock rng st (fl # fls) =
     st # (case assign_crew_to_flight clock rng st fl of
             Inl e \<Rightarrow> []
           | Inr (a, st') \<Rightarrow> batch_states clock rng st' fls)"

section \<open>Alert pipeline (\<open>AirlineOperationsSystem\<close>)\<close>

subsection \<open>Values and components\<close>

text \<open>
  The Python values that travel through the pipeline. An alert, a prediction, the result
  of an optimisation and the flights data are dictionaries with string keys. \<open>PyText\<close>
  is a formatted string, kept as the list of its parts; \<open>PyTime\<close> is a reading of
  \<open>datetime.now()\<close>.
\<close>

datatype py_value =
  PyNone
| PyStr string
| PyInt int
| PyTime int
| PyText "py_value list"
| PyList "py_value list"
| PyDict "(string \<times> py_value) list"

type_synonym py_dict = "(string \<times> py_value) list"

text \<open>
  \<open>d.get(key)\<close> is \<open>map_of d key\<close>, with \<open>None\<close> for a missing key; \<open>d[key]\<close>
  raises \<open>KeyError\<close> for a missing key.
\<close>

definition dict_item :: "py_dict \<Rightarrow> string \<Rightarrow> py_exception + py_value" where
  "dict_item d key = (case map_of d key of None \<Rightarrow> Inl (KeyError key) | Some v \<Rightarrow> Inr v)"

text \<open>
  The component classes that \<open>main.py\<close> imports. In each of them the constructor is
  declared as \<open>def __init__(self)\<close>: it takes no argument besides \<open>self\<close>.
\<close>

datatype component_class =
  LogProcessor
| DelayPredictor
| CrewOptimizer
| LoadPredictor
| HealthMonitor
| RouteMonitor
| Dashboard
| Reporter

fun init_parameters :: "component_class \<Rightarrow> nat" where
  "init_parameters LogProcessor = 0"
| "init_parameters DelayPredictor = 0"
| "init_parameters CrewOptimizer = 0"
| "init_parameters LoadPredictor = 0"
| "init_parameters HealthMonitor = 0"
| "init_parameters RouteMonitor = 0"
| "init_parameters Dashboard = 0"
| "init_parameters Reporter = 0"

text \<open>
  The call \<open>component_class(args)\<close>: Python binds the arguments to the parameters of
  \<open>__init__\<close> before the body runs and raises \<open>TypeError\<close> when their number does not
  fit. An instance is represented by its class.
\<close>

definition construct :: "component_class \<Rightarrow> 'cfg list \<Rightarrow> py_exception + component_class" where
  "construct cls args =
     (if length args = init_parameters cls then Inr cls else Inl TypeError)"

text \<open>\<open>name.lower().replace(' ', '_')\<close> on ASCII names.\<close>

definition lower_char :: "char \<Rightarrow> char" where
  "lower_char c =
     (if (65::nat) \<le> of_char c \<and> of_char c \<le> (90::nat)
      then char_of (of_char c + (32::nat)) else c)"

definition component_key :: "string \<Rightarrow> string" where
  "component_key name =
     map (\<lambda>c. if c = CHR '' '' then CHR ''_'' else c) (map lower_char name)"

definition component_configs :: "'cfg \<Rightarrow> (string \<times> component_class \<times> 'cfg) list" where
  "component_configs config =
     [(''Log Processor'', LogProcessor, config),
      (''Delay Predictor'', DelayPredictor, config),
      (''Crew Optimizer'', CrewOptimizer, config),
      (''Load Predictor'', LoadPredictor, config),
      (''Health Monitor'', HealthMonitor, config),
      (''Route Monitor'', RouteMonitor, config),
      (''Dashboard'', Dashboard, config),
      (''Reporter'', Reporter, config)]"

text \<open>
  The dictionary \<open>components\<close>: a key is absent, or holds \<open>None\<close>, or holds an instance.
\<close>

type_synonym component_dict = "string \<rightharpoonup> component_class option"

text \<open>
  Body of the loop of \<open>_initialize_components\<close>: the constructor is called with the one
  argument \<open>config\<close>; \<open>except Exception\<close> stores \<open>None\<close> under the key.
\<close>

definition initialize_step ::
  "py_exception + component_dict \<Rightarrow> string \<times> component_class \<times> 'cfg
   \<Rightarrow> py_exception + component_dict" where
  "initialize_step acc entry =
     (case acc of
        Inl e \<Rightarrow> Inl e
      | Inr comps \<Rightarrow>
          (case entry of (name, component_class, config) \<Rightarrow>
             (case construct component_class [config] of
                Inr obj \<Rightarrow> Inr (comps(component_key name \<mapsto> Some obj))
              | Inl e \<Rightarrow>
                  if is_Exception e then Inr (comps(component_key name \<mapsto> None))
                  else Inl e)))"

definition initialize_components :: "'cfg \<Rightarrow> py_exception + component_dict" where
  "initialize_components config =
     foldl initialize_step (Inr Map.empty) (component_configs config)"

subsection \<open>The system object and what it acts on\<close>

text \<open>
  The fields of \<open>AirlineOperationsSystem\<close> that the pipeline uses, and a record of its
  effects on the outside: \<open>invocations\<close> lists the component methods called so far (key of
  the component, name of the method), \<open>sent_alerts\<close> the alerts handed to the alert sink,
  \<open>critical_log\<close> the lines appended to \<open>logs/critical_flight_alerts.log\<close> (time stamp and
  alert), \<open>clock_reads\<close> the number of calls of \<open>datetime.now()\<close>. The flag
  \<open>is_running\<close> is written by another thread; a loop sees it through the values it reads.
\<close>

record system =
  components :: component_dict
  flights_data :: py_dict
  alerts_queue :: "py_dict list"
  invocations :: "(string \<times> string) list"
  sent_alerts :: "py_dict list"
  critical_log :: "(int \<times> py_dict) list"
  clock_reads :: nat

text \<open>
  The part of \<open>AirlineOperationsSystem.__init__\<close> after the configuration is loaded:
  the components, an empty \<open>flights_data\<close>, an empty queue. The configuration is passed
  on to the constructors and not looked into; the directories that \<open>__init__\<close> creates
  and the lines it prints are not part of the state.
\<close>

definition init_system :: "'cfg \<Rightarrow> py_exception + system" where
  "init_system config =
     (case initialize_components config of
        Inl e \<Rightarrow> Inl e
      | Inr comps \<Rightarrow>
          Inr \<lparr>components = comps, flights_data = [], alerts_queue = [],
               invocations = [], sent_alerts = [], critical_log = [], clock_reads = 0\<rparr>)"

text \<open>
  What the methods of the components do is outside the pipeline. The result of the call
  that a producer makes in its \<open>k\<close>-th iteration is given from outside: an exception or
  a value. \<open>send_alert\<close> is the alert sink.
\<close>

record evaluators =
  monitor :: "py_dict \<Rightarrow> nat \<Rightarrow> py_exception + py_dict list"
  predict :: "py_dict \<Rightarrow> nat \<Rightarrow> py_exception + py_dict list"
  optimize :: "py_dict \<Rightarrow> nat \<Rightarrow> py_exception + py_dict"
  update :: "py_dict \<Rightarrow> nat \<Rightarrow> py_exception + unit"
  send_alert :: "py_dict \<Rightarrow> py_exception + unit"

text \<open>\<open>self.components[key]\<close>, and its truth value: an instance is true, \<open>None\<close> is false.\<close>

definition component_item :: "system \<Rightarrow> string \<Rightarrow> py_exception + component_class option" where
  "component_item s key =
     (case components s key of None \<Rightarrow> Inl (KeyError key) | Some c \<Rightarrow> Inr c)"

text \<open>\<open>datetime.now()\<close> in the pipeline.\<close>

definition read_clock :: "(nat \<Rightarrow> int) \<Rightarrow> system \<Rightarrow> int \<times> system" where
  "read_clock clock s = (clock (clock_reads s), s\<lparr>clock_reads := Suc (clock_reads s)\<rparr>)"

definition record_call :: "string \<Rightarrow> string \<Rightarrow> system \<Rightarrow> system" where
  "record_call key method s = s\<lparr>invocations := invocations s @ [(key, method)]\<rparr>"

definition put_alert :: "py_dict \<Rightarrow> system \<Rightarrow> system" where
  "put_alert alert s = s\<lparr>alerts_queue := alerts_queue s @ [alert]\<rparr>"

subsection \<open>Producer loops\<close>

text \<open>
  The body of a \<open>try\<close> block returns the exception it raised, if any, and the state it
  reached. \<open>except Exception\<close> swallows an instance of \<open>Exception\<close> (the handler only
  prints) and lets any other exception pass; \<open>time.sleep\<close> after the handler changes
  nothing in the state.
\<close>

type_synonym attempt = "py_exception option \<times> system"

definition except_Exception :: "attempt \<Rightarrow> py_exception + system" where
  "except_Exception r =
     (case r of
        (None, s) \<Rightarrow> Inr s
      | (Some e, s) \<Rightarrow> if is_Exception e then Inr s else Inl e)"

text \<open>\<open>_monitor_health\<close>, the \<open>try\<close> block of iteration \<open>k\<close>.\<close>

definition monitor_health_try :: "evaluators \<Rightarrow> nat \<Rightarrow> system \<Rightarrow> attempt" where
  "monitor_health_try ev k s =
     (case component_item s ''health_monitor'' of
        Inl e \<Rightarrow> (Some e, s)
      | Inr c \<Rightarrow>
          if c \<noteq> None \<and> flights_data s \<noteq> []
          then (let s1 = record_call ''health_monitor'' ''monitor'' s
                in case monitor ev (flights_data s) k of
                     Inl e \<Rightarrow> (Some e, s1)
                   | Inr alerts \<Rightarrow> (None, foldl (\<lambda>t alert. put_alert alert t) s1 alerts))
          else (None, s))"

text \<open>
  \<open>_predict_delays\<close>. \<open>prediction.get('delay_minutes', 0) > 30\<close> compares an integer
  and raises \<open>TypeError\<close> on a value of another kind.
\<close>

definition delay_exceeds :: "py_dict \<Rightarrow> py_exception + bool" where
  "delay_exceeds prediction =
     (case map_of prediction ''delay_minutes'' of
        None \<Rightarrow> Inr False
      | Some (PyInt n) \<Rightarrow> Inr (30 < n)
      | Some v \<Rightarrow> Inl TypeError)"

definition delay_alert :: "(nat \<Rightarrow> int) \<Rightarrow> py_dict \<Rightarrow> system \<Rightarrow> attempt" where
  "delay_alert clock prediction s =
     (case dict_item prediction ''flight_id'' of
        Inl e \<Rightarrow> (Some e, s)
      | Inr fid \<Rightarrow>
          (case dict_item prediction ''delay_minutes'' of
             Inl e \<Rightarrow> (Some e, s)
           | Inr minutes \<Rightarrow>
               (case dict_item prediction ''reasons'' of
                  Inl e \<Rightarrow> (Some e, s)
                | Inr reasons \<Rightarrow>
                    (case read_clock clock s of
                       (now, s1) \<Rightarrow>
                         (None,
                          put_alert
                            [(''type'', PyStr ''DELAY_PREDICTION''),
                             (''severity'', PyStr ''WARNING''),
                             (''flight_id'', fid),
                             (''message'',
                              PyText [PyStr ''Predicted delay: '', minutes, PyStr '' minutes'']),
                             (''details'', reasons),
                             (''timestamp'', PyTime now)]
                            s1)))))"

fun delay_alerts :: "(nat \<Rightarrow> int) \<Rightarrow> py_dict list \<Rightarrow> system \<Rightarrow> attempt" where
  "delay_alerts clock [] s = (None, s)"
| "delay_alerts clock (prediction # predictions) s =
     (case delay_exceeds prediction of
        Inl e \<Rightarrow> (Some e, s)
      | Inr False \<Rightarrow> delay_alerts clock predictions s
      | Inr True \<Rightarrow>
          (case delay_alert clock prediction s of
             (Some e, s1) \<Rightarrow> (Some e, s1)
           | (None, s1) \<Rightarrow> delay_alerts clock predictions s1))"

definition predict_delays_try :: "(nat \<Rightarrow> int) \<Rightarrow> evaluators \<Rightarrow> nat \<Rightarrow> system \<Rightarrow> attempt" where
  "predict_delays_try clock ev k s =
     (case component_item s ''delay_predictor'' of
        Inl e \<Rightarrow> (Some e, s)
      | Inr c \<Rightarrow>
          if c \<noteq> None \<and> flights_data s \<noteq> []
          then (let s1 = record_call ''delay_predictor'' ''predict'' s
                in case predict ev (flights_data s) k of
                     Inl e \<Rightarrow> (Some e, s1)
                   | Inr predictions \<Rightarrow> delay_alerts clock predictions s1)
          else (None, s))"

text \<open>
  \<open>_optimize_crew\<close>. \<open>optimizations.get('issues', [])\<close> must be a list to be iterated
  (\<open>TypeError\<close> otherwise), and \<open>issue.lower()\<close> exists on strings only
  (\<open>AttributeError\<close> otherwise). \<open>contains\<close> is Python's \<open>needle in text\<close>.
\<close>

fun contains :: "string \<Rightarrow> string \<Rightarrow> bool" where
  "contains needle [] = (needle = [])"
| "contains needle (c # cs) = (take (length needle) (c # cs) = needle \<or> contains needle cs)"

definition issues_of :: "py_dict \<Rightarrow> py_exception + py_value list" where
  "issues_of optimizations =
     (case map_of optimizations ''issues'' of
        None \<Rightarrow> Inr []
      | Some (PyList xs) \<Rightarrow> Inr xs
      | Some v \<Rightarrow> Inl TypeError)"

fun crew_alerts :: "(nat \<Rightarrow> int) \<Rightarrow> py_value list \<Rightarrow> system \<Rightarrow> attempt" where
  "crew_alerts clock [] s = (None, s)"
| "crew_alerts clock (PyStr issue # rest) s =
     (if contains ''shortage'' (map lower_char issue)
         \<or> contains ''unavailable'' (map lower_char issue)
      then (case read_clock clock s of
              (now, s1) \<Rightarrow>
                crew_alerts clock rest
                  (put_alert
                     [(''type'', PyStr ''CREW_SHORTAGE''),
                      (''severity'', PyStr ''CRITICAL''),
                      (''message'', PyStr issue),
                      (''timestamp'', PyTime now)]
                     s1))
      else crew_alerts clock rest s)"
| "crew_alerts clock (v # rest) s = (Some (AttributeError ''lower''), s)"

definition optimize_crew_try :: "(nat \<Rightarrow> int) \<Rightarrow> evaluators \<Rightarrow> nat \<Rightarrow> system \<Rightarrow> attempt" where
  "optimize_crew_try clock ev k s =
     (case component_item s ''crew_optimizer'' of
        Inl e \<Rightarrow> (Some e, s)
      | Inr c \<Rightarrow>
          if c \<noteq> None \<and> flights_data s \<noteq> []
          then (let s1 = record_call ''crew_optimizer'' ''optimize'' s
                in case optimize ev (flights_data s) k of
                     Inl e \<Rightarrow> (Some e, s1)
                   | Inr optimizations \<Rightarrow>
                       (case issues_of optimizations of
                          Inl e \<Rightarrow> (Some e, s1)
                        | Inr found \<Rightarrow> crew_alerts clock found s1))
          else (None, s))"

text \<open>
  \<open>_update_dashboard\<close>. The status holds the flights, the last 10 alerts of the queue
  (\<open>list(queue)[-10:]\<close>) and a time stamp; nothing is put on the queue.
\<close>

definition update_dashboard_try :: "(nat \<Rightarrow> int) \<Rightarrow> evaluators \<Rightarrow> nat \<Rightarrow> system \<Rightarrow> attempt" where
  "update_dashboard_try clock ev k s =
     (case component_item s ''dashboard'' of
        Inl e \<Rightarrow> (Some e, s)
      | Inr c \<Rightarrow>
          if c \<noteq> None \<and> flights_data s \<noteq> []
          then (case read_clock clock s of
                  (now, s1) \<Rightarrow>
                    (let status =
                           [(''flights'',
                             (case map_of (flights_data s) ''flights'' of
                                None \<Rightarrow> PyList [] | Some v \<Rightarrow> v)),
                            (''alerts'',
                             PyList (map PyDict
                                      (drop (length (alerts_queue s) - 10) (alerts_queue s)))),
                            (''timestamp'', PyTime now)];
                         s2 = record_call ''dashboard'' ''update'' s1
                     in case update ev status k of
                          Inl e \<Rightarrow> (Some e, s2)
                        | Inr u \<Rightarrow> (None, s2)))
          else (None, s))"

text \<open>The four producers, and one iteration of each: the \<open>try\<close> block under its handler.\<close>

datatype producer = Health | Delay | Crew | DashboardRefresh

fun producer_try :: "(nat \<Rightarrow> int) \<Rightarrow> evaluators \<Rightarrow> producer \<Rightarrow> nat \<Rightarrow> system \<Rightarrow> attempt" where
  "producer_try clock ev Health k s = monitor_health_try ev k s"
| "producer_try clock ev Delay k s = predict_delays_try clock ev k s"
| "producer_try clock ev Crew k s = optimize_crew_try clock ev k s"
| "producer_try clock ev DashboardRefresh k s = update_dashboard_try clock ev k s"

definition iteration ::
  "(nat \<Rightarrow> int) \<Rightarrow> evaluators \<Rightarrow> producer \<Rightarrow> nat \<Rightarrow> system \<Rightarrow> py_exception + system" where
  "iteration clock ev p k s = except_Exception (producer_try clock ev p k s)"

text \<open>
  \<open>while self.is_running: ...\<close>. \<open>running k\<close> is the value of the flag when the loop
  condition is evaluated for the \<open>k\<close>-th time (counted from 0). The loop may run for ever;
  \<open>fuel\<close> bounds the number of evaluations of the condition, and \<open>None\<close> means that the
  loop is still running when the fuel is used up. A finished loop returns the number of
  iterations it made and the state, or the exception that left it.
\<close>

fun producer_loop ::
  "(nat \<Rightarrow> int) \<Rightarrow> evaluators \<Rightarrow> producer \<Rightarrow> (nat \<Rightarrow> bool) \<Rightarrow> nat \<Rightarrow> nat \<Rightarrow> system
   \<Rightarrow> (py_exception + nat \<times> system) option" where
  "producer_loop clock ev p running 0 k s = None"
| "producer_loop clock ev p running (Suc fuel) k s =
     (if running k
      then (case iteration clock ev p k s of
              Inl e \<Rightarrow> Some (Inl e)
            | Inr s' \<Rightarrow> producer_loop clock ev p running fuel (Suc k) s')
      else Some (Inr (k, s)))"

subsection \<open>Dispatcher\<close>

text \<open>
  \<open>_process_alerts\<close>: while the queue is not empty, take its head, hand it to the alert
  sink when the component \<open>alert_system\<close> is true, and append a line to the critical
  log when the severity is \<open>CRITICAL\<close> or \<open>EMERGENCY\<close>. There is no \<open>try\<close> here: the
  first exception ends the drain and leaves the method. The events still to be taken are
  the last argument.
\<close>

definition is_critical :: "py_dict \<Rightarrow> bool" where
  "is_critical alert =
     (map_of alert ''severity'' = Some (PyStr ''CRITICAL'')
      \<or> map_of alert ''severity'' = Some (PyStr ''EMERGENCY''))"

definition log_critical :: "(nat \<Rightarrow> int) \<Rightarrow> py_dict \<Rightarrow> system \<Rightarrow> system" where
  "log_critical clock alert s =
     (if is_critical alert
      then (case read_clock clock s of
              (now, s1) \<Rightarrow> s1\<lparr>critical_log := critical_log s1 @ [(now, alert)]\<rparr>)
      else s)"

fun drain :: "(nat \<Rightarrow> int) \<Rightarrow> evaluators \<Rightarrow> system \<Rightarrow> py_dict list \<Rightarrow> attempt" where
  "drain clock ev s [] = (None, s\<lparr>alerts_queue := []\<rparr>)"
| "drain clock ev s (alert # rest) =
     (let s1 = s\<lparr>alerts_queue := rest\<rparr>
      in case component_item s1 ''alert_system'' of
           Inl e \<Rightarrow> (Some e, s1)
         | Inr None \<Rightarrow> drain clock ev (log_critical clock alert s1) rest
         | Inr (Some c) \<Rightarrow>
             (let s2 = record_call ''alert_system'' ''send_alert'' s1
              in case send_alert ev alert of
                   Inl e \<Rightarrow> (Some e, s2)
                 | Inr u \<Rightarrow>
                     drain clock ev
                       (log_critical clock alert (s2\<lparr>sent_alerts := sent_alerts s2 @ [alert]\<rparr>))
                       rest))"

definition process_alerts :: "(nat \<Rightarrow> int) \<Rightarrow> evaluators \<Rightarrow> system \<Rightarrow> attempt" where
  "process_alerts clock ev s = drain clock ev s (alerts_queue s)"

text \<open>
  The crew step of \<open>run_single_analysis\<close> (section 3, crew scheduling optimisation):
  the optimizer is called when the component is true; nothing handles an exception here.
\<close>

definition single_analysis_crew_step :: "evaluators \<Rightarrow> nat \<Rightarrow> system \<Rightarrow> attempt" where
  "single_analysis_crew_step ev k s =
     (case component_item s ''crew_optimizer'' of
        Inl e \<Rightarrow> (Some e, s)
      | Inr c \<Rightarrow>
          if c \<noteq> None
          then (let s1 = record_call ''crew_optimizer'' ''optimize'' s
                in case optimize ev (flights_data s) k of
                     Inl e \<Rightarrow> (Some e, s1)
                   | Inr crew_results \<Rightarrow>
                       (case issues_of crew_results of
                          Inl e \<Rightarrow> (Some e, s1)
                        | Inr found \<Rightarrow> (None, s1)))
          else (None, s))"

section \<open>Sightings: the crew ids in the order the first loop visits them\<close>

text \<open>
  A sighting is a crew id, the flight it is seen on and the severity the loop would
  attach to a repeat at this place: \<open>HIGH\<close> in the two pilot slots, \<open>MEDIUM\<close> in the
  attendant list. A pilot slot whose value is not true in Python's sense is skipped by
  the source and gives no sighting.
\<close>

type_synonym sighting = "string \<times> string \<times> string"

definition pilot_sighting :: "assignment \<Rightarrow> string option \<Rightarrow> sighting list" where
  "pilot_sighting a slot =
     (case slot of
        None \<Rightarrow> []
      | Some crew \<Rightarrow> if crew = [] then [] else [(crew, flight_id a, ''HIGH'')])"

definition sightings_of :: "assignment \<Rightarrow> sighting list" where
  "sightings_of a =
     pilot_sighting a (captain a) @ pilot_sighting a (first_officer a)
     @ map (\<lambda>attendant_id. (attendant_id, flight_id a, ''MEDIUM'')) (attendants a)"

definition sightings :: "assignment list \<Rightarrow> sighting list" where
  "sightings as = concat (map sightings_of as)"

text \<open>The flight of the latest sighting of a crew id among the sightings made so far.\<close>

definition previous_flight :: "sighting list \<Rightarrow> string \<Rightarrow> string option" where
  "previous_flight seen crew =
     (let earlier = filter (\<lambda>s. fst s = crew) seen
      in if earlier = [] then None else Some (fst (snd (last earlier))))"

text \<open>The flight of the earliest sighting of a crew id among the sightings made so far.\<close>

definition first_flight :: "sighting list \<Rightarrow> string \<Rightarrow> string option" where
  "first_flight seen crew =
     (let earlier = filter (\<lambda>s. fst s = crew) seen
      in if earlier = [] then None else Some (fst (snd (hd earlier))))"

text \<open>
  What one sighting contributes, given the sightings before it: nothing when the id is
  new, one \<open>DOUBLE_BOOKING\<close> pairing the flight found by \<open>lookup\<close> with the current
  flight otherwise.
\<close>

definition repeat_issue ::
  "(sighting list \<Rightarrow> string \<Rightarrow> string option) \<Rightarrow> sighting list \<Rightarrow> sighting \<Rightarrow> issue list" where
  "repeat_issue lookup seen s =
     (case lookup seen (fst s) of
        None \<Rightarrow> []
      | Some f \<Rightarrow> [DOUBLE_BOOKING (fst s) [f, fst (snd s)] (snd (snd s))])"

definition repeat_issues ::
  "(sighting list \<Rightarrow> string \<Rightarrow> string option) \<Rightarrow> sighting list \<Rightarrow> issue list" where
  "repeat_issues lookup ss =
     concat (map (\<lambda>j. repeat_issue lookup (take j ss) (ss ! j)) [0..<length ss])"

text \<open>One step of the first loop, on a sighting.\<close>

definition sight_step :: "detector_state \<Rightarrow> sighting \<Rightarrow> detector_state" where
  "sight_step st s =
     (case st of (crew_assignments, found) \<Rightarrow>
        (crew_assignments(fst s \<mapsto> fst (snd s)),
         (case crew_assignments (fst s) of
            None \<Rightarrow> found
          | Some seen \<Rightarrow> found @ [DOUBLE_BOOKING (fst s) [seen, fst (snd s)] (snd (snd s))])))"

text \<open>The shortage entry of one assignment, if any.\<close>

definition shortage_of :: "assignment \<Rightarrow> issue list" where
  "shortage_of a =
     (if \<not> truthy (captain a) \<or> \<not> truthy (first_officer a)
      then [CREW_SHORTAGE (flight_id a)
              (if \<not> truthy (captain a) then ''captain'' else ''first_officer'')
              ''CRITICAL'']
      else [])"

fun is_shortage :: "issue \<Rightarrow> bool" where
  "is_shortage (CREW_SHORTAGE f r s) = True"
| "is_shortage (DOUBLE_BOOKING c fs s) = False"

text \<open>
  The double bookings emitted while the assignment at position \<open>i\<close> is processed: one
  candidate per sighting of that assignment, in the order captain, first officer,
  attendants, each judged against all sightings made before it.
\<close>

definition assignment_bookings :: "assignment list \<Rightarrow> nat \<Rightarrow> issue list" where
  "assignment_bookings as i =
     concat (map (\<lambda>j. repeat_issue previous_flight
                         (sightings (take i as) @ take j (sightings_of (as ! i)))
                         (sightings_of (as ! i) ! j))
               [0..<length (sightings_of (as ! i))])"

text \<open>
  A single ordering by assignment, as the words "assignment order, then crew-role order
  within an assignment" read when they are applied to all issues at once: everything
  about the first assignment, then everything about the second, and so on.
\<close>

definition issues_by_assignment :: "assignment list \<Rightarrow> issue list" where
  "issues_by_assignment as =
     concat (map (\<lambda>i. assignment_bookings as i @ shortage_of (as ! i)) [0..<length as])"

section \<open>Crew assignment engine: notions used in the statements\<close>

text \<open>
  The eligible pools of a flight that is assigned from the optimizer state \<open>st\<close>, as
  lists of crew ids in pool order.
\<close>

definition pilot_pool_ids :: "(nat \<Rightarrow> int) \<Rightarrow> optimizer \<Rightarrow> string list" where
  "pilot_pool_ids clock st = map (\<lambda>i. crew_id (crew_members st ! i)) (fst (pilot_scan clock st))"

definition attendant_pool_ids :: "(nat \<Rightarrow> int) \<Rightarrow> optimizer \<Rightarrow> string list" where
  "attendant_pool_ids clock st =
     map (\<lambda>i. crew_id (crew_members st ! i)) (fst (attendant_scan clock st))"

text \<open>The positions a selection updates, in the order of the updates.\<close>

definition selected :: "selection \<Rightarrow> nat list" where
  "selected sel =
     (case sel_captain sel of None \<Rightarrow> [] | Some i \<Rightarrow> [i])
     @ (case sel_first_officer sel of None \<Rightarrow> [] | Some i \<Rightarrow> [i])
     @ sel_attendants sel"

text \<open>
  The positions of the members that are free at the time \<open>now\<close>, and the positions of
  the attendants.
\<close>

definition eligible_at :: "int \<Rightarrow> optimizer \<Rightarrow> nat set" where
  "eligible_at now st =
     {p. p < length (crew_members st) \<and> next_available (crew_members st ! p) \<le> now}"

definition attendant_positions :: "optimizer \<Rightarrow> nat set" where
  "attendant_positions st =
     {p. p < length (crew_members st) \<and> role (crew_members st ! p) = ''attendant''}"

section \<open>Alert pipeline: notions used in the statements\<close>






section \<open>Concrete inputs\<close>

definition crewed_flight :: "string \<Rightarrow> string option \<Rightarrow> string option \<Rightarrow> string list \<Rightarrow> assignment" where
  "crewed_flight fid cap fo atts =
     \<lparr>flight_id = fid, aircraft_id = ''VT-AXB'', captain = cap, first_officer = fo,
      attendants = atts,
      crew_count = length atts + (if cap \<noteq> None then 1 else 0) + (if fo \<noteq> None then 1 else 0),
      assignment_time = 0\<rparr>"

text \<open>The same captain on three flights in a row, each with its own first officer.\<close>

definition thrice_captain :: "assignment list" where
  "thrice_captain =
     [crewed_flight ''F1'' (Some ''P001'') (Some ''P006'') [],
      crewed_flight ''F2'' (Some ''P001'') (Some ''P007'') [],
      crewed_flight ''F3'' (Some ''P001'') (Some ''P008'') []]"

text \<open>Two flights without pilots that share one attendant.\<close>

definition shared_attendant :: "assignment list" where
  "shared_attendant =
     [crewed_flight ''F1'' None None [''FA001''],
      crewed_flight ''F2'' None None [''FA001'']]"

text \<open>A flight without captain, one without first officer, one without both, one complete.\<close>

definition short_flights :: "assignment list" where
  "short_flights =
     [crewed_flight ''F1'' None (Some ''P006'') [],
      crewed_flight ''F2'' (Some ''P001'') None [],
      crewed_flight ''F3'' None None [''FA001''],
      crewed_flight ''F4'' (Some ''P002'') (Some ''P007'') []]"

text \<open>
  A crew member as \<open>_initialize_crew\<close> creates it, with time counted from the moment of
  creation.
\<close>

definition new_member :: "string \<Rightarrow> string \<Rightarrow> crew_member" where
  "new_member r cid =
     \<lparr>crew_id = cid, role = r, rest_hours = 0, next_available = 0, assigned_flights = []\<rparr>"

text \<open>Six pilots and two attendants, nobody assigned yet.\<close>

definition small_crew :: optimizer where
  "small_crew =
     \<lparr>crew_members =
        [new_member ''pilot'' ''P001'', new_member ''pilot'' ''P002'',
         new_member ''pilot'' ''P003'', new_member ''pilot'' ''P004'',
         new_member ''pilot'' ''P005'', new_member ''pilot'' ''P006'',
         new_member ''attendant'' ''FA001'', new_member ''attendant'' ''FA002''],
      now_calls = 0, random_calls = 0\<rparr>"

text \<open>A roster of exactly two attendants and no pilot.\<close>

definition two_attendants :: optimizer where
  "two_attendants =
     \<lparr>crew_members = [new_member ''attendant'' ''FA001'', new_member ''attendant'' ''FA002''],
      now_calls = 0, random_calls = 0\<rparr>"

definition three_flights :: "flight list" where
  "three_flights =
     [\<lparr>flight_id = ''F1'', aircraft_id = ''VT-AXB''\<rparr>,
      \<lparr>flight_id = ''F2'', aircraft_id = ''VT-BXC''\<rparr>,
      \<lparr>flight_id = ''F3'', aircraft_id = ''VT-CXD''\<rparr>]"

text \<open>A clock that advances by one microsecond per call, and one that stands still.\<close>

definition ticking :: "nat \<Rightarrow> int" where
  "ticking k = int k"

definition frozen :: "nat \<Rightarrow> int" where
  "frozen k = 0"

text \<open>A random source whose \<open>k\<close>-th draw is \<open>k\<close>.\<close>

definition counting :: "nat \<Rightarrow> nat" where
  "counting k = k"

text \<open>
  The evaluators as the classes of the repository provide them: none of the classes
  defines the method that \<open>main.py\<close> calls (\<open>monitor\<close>, \<open>predict\<close>, \<open>optimize\<close>,
  \<open>update\<close>, \<open>send_alert\<close>), so each call raises \<open>AttributeError\<close>.
\<close>

definition failing_evaluators :: evaluators where
  "failing_evaluators =
     \<lparr>monitor = (\<lambda>fd k. Inl (AttributeError ''monitor'')),
      predict = (\<lambda>fd k. Inl (AttributeError ''predict'')),
      optimize = (\<lambda>fd k. Inl (AttributeError ''optimize'')),
      update = (\<lambda>st k. Inl (AttributeError ''update'')),
      send_alert = (\<lambda>alert. Inl (AttributeError ''send_alert''))\<rparr>"

text \<open>A system whose producers have their components and some flights data.\<close>

definition staffed_system :: system where
  "staffed_system =
     \<lparr>components =
        [''health_monitor'' \<mapsto> Some HealthMonitor, ''delay_predictor'' \<mapsto> Some DelayPredictor,
         ''crew_optimizer'' \<mapsto> Some CrewOptimizer, ''dashboard'' \<mapsto> Some Dashboard],
      flights_data = [(''flights'', PyList [])], alerts_queue = [],
      invocations = [], sent_alerts = [], critical_log = [], clock_reads = 0\<rparr>"

text \<open>The running flag is true at the first three readings and false at the fourth.\<close>

definition three_ticks :: "nat \<Rightarrow> bool" where
  "three_ticks j = (j < 3)"

text \<open>An event of severity \<open>CRITICAL\<close>, as the crew producer builds it.\<close>

definition critical_event :: py_dict where
  "critical_event =
     [(''type'', PyStr ''CREW_SHORTAGE''), (''severity'', PyStr ''CRITICAL''),
      (''message'', PyStr ''crew shortage on GA1001''), (''timestamp'', PyTime 0)]"

text \<open>The system after \<open>__init__\<close>: every component is \<open>None\<close>.\<close>

definition assembled_system :: system where
  "assembled_system =
     \<lparr>components =
        [''log_processor'' \<mapsto> None, ''delay_predictor'' \<mapsto> None,
         ''crew_optimizer'' \<mapsto> None, ''load_predictor'' \<mapsto> None,
         ''health_monitor'' \<mapsto> None, ''route_monitor'' \<mapsto> None,
         ''dashboard'' \<mapsto> None, ''reporter'' \<mapsto> None],
      flights_data = [], alerts_queue = [],
      invocations = [], sent_alerts = [], critical_log = [], clock_reads = 0\<rparr>"

text \<open>
  A clock that is set back: its first two readings are hour 100, the later ones hour 0.
  Two attendants who are free from hour 100 on, and a batch of one flight.
\<close>

definition stepping_back :: "nat \<Rightarrow> int" where
  "stepping_back k = (if k < 2 then 360000000000 else 0)"

definition rested_late :: optimizer where
  "rested_late =
     \<lparr>crew_members =
        [\<lparr>crew_id = ''FA001'', role = ''attendant'', rest_hours = 0,
           next_available = 360000000000, assigned_flights = []\<rparr>,
         \<lparr>crew_id = ''FA002'', role = ''attendant'', rest_hours = 0,
           next_available = 360000000000, assigned_flights = []\<rparr>],
      now_calls = 0, random_calls = 0\<rparr>"

definition one_flight :: "flight list" where
  "one_flight = [\<lparr>flight_id = ''F1'', aircraft_id = ''VT-AXB''\<rparr>]"



section \<open>Conflict detector: lemmas\<close>

lemma pilot_role_step_captain:
  "pilot_role_step a st ''captain'' = foldl sight_step st (pilot_sighting a (captain a))"
  by (cases st)
     (simp add: pilot_role_step_def assignment_get_def pilot_sighting_def sight_step_def
           split: option.splits)

lemma pilot_role_step_first_officer:
  "pilot_role_step a st ''first_officer'' =
     foldl sight_step st (pilot_sighting a (first_officer a))"
  by (cases st)
     (simp add: pilot_role_step_def assignment_get_def pilot_sighting_def sight_step_def
           split: option.splits)

lemma attendant_fold_sightings:
  "foldl (attendant_step a) st xs =
     foldl sight_step st (map (\<lambda>attendant_id. (attendant_id, flight_id a, ''MEDIUM'')) xs)"
proof (induction xs arbitrary: st)
  case Nil
  show ?case by simp
next
  case (Cons x xs)
  have "attendant_step a st x = sight_step st (x, flight_id a, ''MEDIUM'')"
    by (cases st) (simp add: attendant_step_def sight_step_def split: option.splits)
  with Cons show ?case by simp
qed

lemma double_booking_step_sightings:
  "double_booking_step st a = foldl sight_step st (sightings_of a)"
  by (simp add: double_booking_step_def sightings_of_def pilot_role_step_captain
        pilot_role_step_first_officer attendant_fold_sightings)

lemma double_booking_fold_sightings:
  "foldl double_booking_step st as = foldl sight_step st (sightings as)"
  by (induction as arbitrary: st)
     (simp_all add: sightings_def double_booking_step_sightings)

lemma map_upt_cong:
  assumes "\<And>j. j < n \<Longrightarrow> f j = g j"
  shows "map f [0..<n] = map g [0..<n]"
  using assms by simp

lemma take_length_snoc: "take (length ss) (ss @ [s]) = ss"
  by simp

lemma previous_flight_snoc:
  "previous_flight (seen @ [s]) = (previous_flight seen)(fst s \<mapsto> fst (snd s))"
  by (rule ext) (simp add: previous_flight_def)

lemma repeat_issues_snoc:
  "repeat_issues lookup (ss @ [s]) = repeat_issues lookup ss @ repeat_issue lookup ss s"
proof -
  have eq: "map (\<lambda>j. repeat_issue lookup (take j (ss @ [s])) ((ss @ [s]) ! j)) [0..<length ss]
        = map (\<lambda>j. repeat_issue lookup (take j ss) (ss ! j)) [0..<length ss]"
    by (rule map_upt_cong) (simp add: nth_append)
  show ?thesis by (simp add: repeat_issues_def eq take_length_snoc del: take_append)
qed

lemma sight_fold:
  "foldl sight_step (previous_flight seen, found) ss =
     (previous_flight (seen @ ss),
      found @ concat (map (\<lambda>j. repeat_issue previous_flight (seen @ take j ss) (ss ! j))
                         [0..<length ss]))"
proof (induction ss rule: rev_induct)
  case Nil
  show ?case by simp
next
  case (snoc s ss)
  have eq: "map (\<lambda>j. repeat_issue previous_flight (seen @ take j (ss @ [s])) ((ss @ [s]) ! j))
              [0..<length ss]
            = map (\<lambda>j. repeat_issue previous_flight (seen @ take j ss) (ss ! j)) [0..<length ss]"
    by (rule map_upt_cong) (simp add: nth_append)
  have step: "sight_step (previous_flight (seen @ ss), acc) s
              = (previous_flight (seen @ ss @ [s]),
                 acc @ repeat_issue previous_flight (seen @ ss) s)" for acc
    using previous_flight_snoc [of "seen @ ss" s]
    by (simp add: sight_step_def repeat_issue_def split: option.splits)
  show ?case
    by (simp add: snoc.IH step eq take_length_snoc del: take_append)
qed

lemma previous_flight_Nil: "previous_flight [] = Map.empty"
  by (rule ext) (simp add: previous_flight_def)

lemma double_booking_pass:
  "foldl double_booking_step (Map.empty, []) as =
     (previous_flight (sightings as), repeat_issues previous_flight (sightings as))"
  using sight_fold [of "[]" "[]" "sightings as"]
  by (simp add: double_booking_fold_sightings previous_flight_Nil repeat_issues_def)

lemma shortage_fold: "foldl shortage_step found as = found @ concat (map shortage_of as)"
  by (induction as arbitrary: found) (simp_all add: shortage_step_def shortage_of_def)

lemma check_schedule_issues_eq:
  "check_schedule_issues as =
     repeat_issues previous_flight (sightings as) @ concat (map shortage_of as)"
  by (simp add: check_schedule_issues_def double_booking_pass shortage_fold)

lemma repeat_issue_no_shortage: "filter is_shortage (repeat_issue lookup seen s) = []"
  by (simp add: repeat_issue_def split: option.splits)

lemma repeat_issue_all_bookings:
  "filter (\<lambda>x. \<not> is_shortage x) (repeat_issue lookup seen s) = repeat_issue lookup seen s"
  by (simp add: repeat_issue_def split: option.splits)

lemma repeat_issues_no_shortage: "filter is_shortage (repeat_issues lookup ss) = []"
  by (simp add: repeat_issues_def filter_concat comp_def repeat_issue_no_shortage)

lemma repeat_issues_all_bookings:
  "filter (\<lambda>x. \<not> is_shortage x) (repeat_issues lookup ss) = repeat_issues lookup ss"
  by (simp add: repeat_issues_def filter_concat comp_def repeat_issue_all_bookings)

lemma shortage_of_all_shortage: "filter is_shortage (shortage_of a) = shortage_of a"
  by (simp add: shortage_of_def)

lemma shortage_of_no_booking: "filter (\<lambda>x. \<not> is_shortage x) (shortage_of a) = []"
  by (simp add: shortage_of_def)

lemma shortages_all_shortage:
  "filter is_shortage (concat (map shortage_of as)) = concat (map shortage_of as)"
  by (simp add: filter_concat comp_def shortage_of_all_shortage)

lemma shortages_no_booking:
  "filter (\<lambda>x. \<not> is_shortage x) (concat (map shortage_of as)) = []"
  by (simp add: filter_concat comp_def shortage_of_no_booking)

lemma shortages_explicit:
  "concat (map shortage_of as) =
     map (\<lambda>a. CREW_SHORTAGE (flight_id a)
                 (if \<not> truthy (captain a) then ''captain'' else ''first_officer'')
                 ''CRITICAL'')
       (filter (\<lambda>a. \<not> truthy (captain a) \<or> \<not> truthy (first_officer a)) as)"
  by (induction as) (simp_all add: shortage_of_def)

lemma thrice_captain_issues:
  "check_schedule_issues thrice_captain =
     [DOUBLE_BOOKING ''P001'' [''F1'', ''F2''] ''HIGH'',
      DOUBLE_BOOKING ''P001'' [''F2'', ''F3''] ''HIGH'']"
  by (simp add: check_schedule_issues_def thrice_captain_def crewed_flight_def
        double_booking_step_def pilot_role_step_def attendant_step_def assignment_get_def
        shortage_step_def)

lemma shared_attendant_issues:
  "check_schedule_issues shared_attendant =
     [DOUBLE_BOOKING ''FA001'' [''F1'', ''F2''] ''MEDIUM'',
      CREW_SHORTAGE ''F1'' ''captain'' ''CRITICAL'',
      CREW_SHORTAGE ''F2'' ''captain'' ''CRITICAL'']"
  by (simp add: check_schedule_issues_def shared_attendant_def crewed_flight_def
        double_booking_step_def pilot_role_step_def attendant_step_def assignment_get_def
        shortage_step_def)

lemma short_flights_issues:
  "check_schedule_issues short_flights =
     [CREW_SHORTAGE ''F1'' ''captain'' ''CRITICAL'',
      CREW_SHORTAGE ''F2'' ''first_officer'' ''CRITICAL'',
      CREW_SHORTAGE ''F3'' ''captain'' ''CRITICAL'']"
  by (simp add: check_schedule_issues_def short_flights_def crewed_flight_def
        double_booking_step_def pilot_role_step_def attendant_step_def assignment_get_def
        shortage_step_def)

lemma repeat_issues_append:
  "repeat_issues lookup (xs @ ys) =
     repeat_issues lookup xs
     @ concat (map (\<lambda>j. repeat_issue lookup (xs @ take j ys) (ys ! j)) [0..<length ys])"
proof (induction ys rule: rev_induct)
  case Nil
  show ?case by simp
next
  case (snoc y ys)
  have eq: "map (\<lambda>j. repeat_issue lookup (xs @ take j (ys @ [y])) ((ys @ [y]) ! j)) [0..<length ys]
            = map (\<lambda>j. repeat_issue lookup (xs @ take j ys) (ys ! j)) [0..<length ys]"
    by (rule map_upt_cong) (simp add: nth_append)
  have "repeat_issues lookup (xs @ ys @ [y]) =
          repeat_issues lookup (xs @ ys) @ repeat_issue lookup (xs @ ys) y"
    using repeat_issues_snoc [of lookup "xs @ ys" y] by simp
  then show ?case
    by (simp add: snoc.IH eq take_length_snoc del: take_append)
qed

lemma sightings_snoc: "sightings (as @ [a]) = sightings as @ sightings_of a"
  by (simp add: sightings_def)

lemma assignment_bookings_snoc_old:
  "i < length as \<Longrightarrow> assignment_bookings (as @ [a]) i = assignment_bookings as i"
  by (simp add: assignment_bookings_def nth_append)

lemma assignment_bookings_snoc_new:
  "assignment_bookings (as @ [a]) (length as) =
     concat (map (\<lambda>j. repeat_issue previous_flight (sightings as @ take j (sightings_of a))
                         (sightings_of a ! j))
               [0..<length (sightings_of a)])"
  by (simp add: assignment_bookings_def)

lemma bookings_by_assignment:
  "repeat_issues previous_flight (sightings as) =
     concat (map (assignment_bookings as) [0..<length as])"
proof (induction as rule: rev_induct)
  case Nil
  show ?case by (simp add: sightings_def repeat_issues_def)
next
  case (snoc a as)
  have old: "map (assignment_bookings (as @ [a])) [0..<length as]
             = map (assignment_bookings as) [0..<length as]"
    by (rule map_upt_cong) (rule assignment_bookings_snoc_old)
  show ?case
    by (simp add: sightings_snoc repeat_issues_append snoc.IH old
          assignment_bookings_snoc_new)
qed

lemma sightings_of_flight: "s \<in> set (sightings_of a) \<Longrightarrow> fst (snd s) = flight_id a"
  by (auto simp: sightings_of_def pilot_sighting_def split: option.splits if_splits)

lemma assignment_bookings_about:
  assumes "x \<in> set (assignment_bookings as i)"
  shows "\<exists>c f sev. x = DOUBLE_BOOKING c [f, flight_id (as ! i)] sev"
proof -
  from assms obtain j where j: "j < length (sightings_of (as ! i))"
    and x: "x \<in> set (repeat_issue previous_flight
                       (sightings (take i as) @ take j (sightings_of (as ! i)))
                       (sightings_of (as ! i) ! j))"
    by (auto simp: assignment_bookings_def)
  from j have "fst (snd (sightings_of (as ! i) ! j)) = flight_id (as ! i)"
    by (intro sightings_of_flight nth_mem)
  with x show ?thesis
    by (auto simp: repeat_issue_def split: option.splits)
qed

lemma shortages_by_position:
  "concat (map shortage_of as) = concat (map (\<lambda>i. shortage_of (as ! i)) [0..<length as])"
proof -
  have "map shortage_of as = map shortage_of (map (\<lambda>i. as ! i) [0..<length as])"
    by (simp only: map_nth)
  then show ?thesis by (simp add: comp_def)
qed

lemma select_crew_total: "\<exists>sel. select_crew rng r ps ats = Inr sel"
  by (simp add: select_crew_def random_choice_def random_sample_def random_randint_def split: prod.splits)

lemma assign_crew_to_flight_total:
  "\<exists>a st'. assign_crew_to_flight clock rng st fl = Inr (a, st')"
proof -
  obtain sel where "select_crew rng (random_calls st) (fst (pilot_scan clock st))
             (fst (attendant_scan clock st)) = Inr sel"
    using select_crew_total by blast
  then show ?thesis
    by (simp add: assign_crew_to_flight_def split: prod.splits)
qed

lemma assign_all_total:
  "\<exists>as st'. assign_all clock rng st fls = Inr (as, st') \<and> length as = length fls"
proof (induction fls arbitrary: st)
  case Nil
  show ?case by simp
next
  case (Cons fl fls)
  obtain a st1 where 1: "assign_crew_to_flight clock rng st fl = Inr (a, st1)"
    using assign_crew_to_flight_total by blast
  obtain as st2 where 2: "assign_all clock rng st1 fls = Inr (as, st2)" "length as = length fls"
    using Cons.IH by blast
  show ?case by (simp add: 1 2)
qed

lemma thrice_captain_first_flight:
  "repeat_issues first_flight (sightings thrice_captain) =
     [DOUBLE_BOOKING ''P001'' [''F1'', ''F2''] ''HIGH'',
      DOUBLE_BOOKING ''P001'' [''F1'', ''F3''] ''HIGH'']"
  by (simp add: repeat_issues_def repeat_issue_def first_flight_def sightings_def
        sightings_of_def pilot_sighting_def thrice_captain_def crewed_flight_def upt_rec)

lemma thrice_captain_previous_flight:
  "repeat_issues previous_flight (sightings thrice_captain) =
     [DOUBLE_BOOKING ''P001'' [''F1'', ''F2''] ''HIGH'',
      DOUBLE_BOOKING ''P001'' [''F2'', ''F3''] ''HIGH'']"
  by (simp add: repeat_issues_def repeat_issue_def previous_flight_def sightings_def
        sightings_of_def pilot_sighting_def thrice_captain_def crewed_flight_def upt_rec)

lemma shared_attendant_by_assignment:
  "issues_by_assignment shared_attendant =
     [CREW_SHORTAGE ''F1'' ''captain'' ''CRITICAL'',
      DOUBLE_BOOKING ''FA001'' [''F1'', ''F2''] ''MEDIUM'',
      CREW_SHORTAGE ''F2'' ''captain'' ''CRITICAL'']"
  by (simp add: issues_by_assignment_def assignment_bookings_def shortage_of_def
        repeat_issue_def previous_flight_def sightings_def sightings_of_def
        pilot_sighting_def shared_attendant_def crewed_flight_def upt_rec)

lemma optimize_schedule_total:
  "\<exists>r st'. optimize_schedule clock rng st fls = Inr (r, st')
           \<and> issues r = check_schedule_issues (assignments r)
           \<and> length (assignments r) = length fls"
proof -
  obtain as st' where "assign_all clock rng st fls = Inr (as, st')" "length as = length fls"
    using assign_all_total by blast
  then show ?thesis by (simp add: optimize_schedule_def)
qed

section \<open>Crew assignment engine: lemmas\<close>

lemma pilots_from_reads: "n \<le> snd (available_pilots_from clock cs i n)"
proof (induction cs arbitrary: i n)
  case Nil
  show ?case by simp
next
  case (Cons c cs)
  have "Suc n \<le> snd (available_pilots_from clock cs (Suc i) (Suc n))" by (rule Cons.IH)
  moreover have "n \<le> snd (available_pilots_from clock cs (Suc i) n)" by (rule Cons.IH)
  ultimately show ?case by (simp add: Let_def)
qed

lemma attendants_from_reads: "n \<le> snd (available_attendants_from clock cs i n)"
proof (induction cs arbitrary: i n)
  case Nil
  show ?case by simp
next
  case (Cons c cs)
  have "Suc n \<le> snd (available_attendants_from clock cs (Suc i) (Suc n))" by (rule Cons.IH)
  moreover have "n \<le> snd (available_attendants_from clock cs (Suc i) n)" by (rule Cons.IH)
  ultimately show ?case by (simp add: Let_def)
qed

lemma pilots_from_range:
  "j \<in> set (fst (available_pilots_from clock cs i n)) \<Longrightarrow> i \<le> j \<and> j < i + length cs"
proof (induction cs arbitrary: i n)
  case Nil
  then show ?case by simp
next
  case (Cons c cs)
  from Cons.prems have "j = i \<or> j \<in> set (fst (available_pilots_from clock cs (Suc i) (Suc n)))
      \<or> j \<in> set (fst (available_pilots_from clock cs (Suc i) n))"
    by (auto simp: Let_def split: if_splits)
  then show ?case using Cons.IH by fastforce
qed

lemma attendants_from_range:
  "j \<in> set (fst (available_attendants_from clock cs i n)) \<Longrightarrow> i \<le> j \<and> j < i + length cs"
proof (induction cs arbitrary: i n)
  case Nil
  then show ?case by simp
next
  case (Cons c cs)
  from Cons.prems have "j = i \<or> j \<in> set (fst (available_attendants_from clock cs (Suc i) (Suc n)))
      \<or> j \<in> set (fst (available_attendants_from clock cs (Suc i) n))"
    by (auto simp: Let_def split: if_splits)
  then show ?case using Cons.IH by fastforce
qed

lemma pilots_from_distinct: "distinct (fst (available_pilots_from clock cs i n))"
proof (induction cs arbitrary: i n)
  case Nil
  show ?case by simp
next
  case (Cons c cs)
  have "i \<notin> set (fst (available_pilots_from clock cs (Suc i) m))" for m
    using pilots_from_range [of i clock cs "Suc i" m] by auto
  then show ?case using Cons.IH by (simp add: Let_def)
qed

lemma attendants_from_distinct: "distinct (fst (available_attendants_from clock cs i n))"
proof (induction cs arbitrary: i n)
  case Nil
  show ?case by simp
next
  case (Cons c cs)
  have "i \<notin> set (fst (available_attendants_from clock cs (Suc i) m))" for m
    using attendants_from_range [of i clock cs "Suc i" m] by auto
  then show ?case using Cons.IH by (simp add: Let_def)
qed

lemma pilots_from_eligible:
  "j \<in> set (fst (available_pilots_from clock cs i n)) \<Longrightarrow>
     role (cs ! (j - i)) = ''pilot'' \<and> rest_hours (cs ! (j - i)) \<le> 8
     \<and> (\<exists>k. n \<le> k \<and> k < snd (available_pilots_from clock cs i n)
              \<and> next_available (cs ! (j - i)) \<le> clock k)"
proof (induction cs arbitrary: i n)
  case Nil
  then show ?case by simp
next
  case (Cons c cs)
  show ?case
  proof (cases "role c = ''pilot''")
    case True
    let ?rest = "available_pilots_from clock cs (Suc i) (Suc n)"
    have reads: "Suc n \<le> snd ?rest" by (rule pilots_from_reads)
    show ?thesis
    proof (cases "j \<in> set (fst ?rest)")
      case True
      then have "Suc i \<le> j" using pilots_from_range by blast
      then have idx: "(c # cs) ! (j - i) = cs ! (j - Suc i)"
        by (simp add: Suc_diff_Suc Suc_le_lessD del: diff_Suc_Suc)
      from Cons.IH [OF True] obtain k where
        "role (cs ! (j - Suc i)) = ''pilot''" "rest_hours (cs ! (j - Suc i)) \<le> 8"
        "Suc n \<le> k" "k < snd ?rest" "next_available (cs ! (j - Suc i)) \<le> clock k"
        by blast
      then show ?thesis using \<open>role c = ''pilot''\<close> idx
        by (auto simp: Let_def intro!: exI [of _ k])
    next
      case False
      with Cons.prems \<open>role c = ''pilot''\<close>
      have "j = i" "next_available c \<le> clock n" "rest_hours c \<le> 8"
        by (auto simp: Let_def split: if_splits)
      then show ?thesis using \<open>role c = ''pilot''\<close> reads
        by (auto simp: Let_def intro!: exI [of _ n])
    qed
  next
    case False
    with Cons.prems have mem: "j \<in> set (fst (available_pilots_from clock cs (Suc i) n))"
      by simp
    then have "Suc i \<le> j" using pilots_from_range by blast
    then have idx: "(c # cs) ! (j - i) = cs ! (j - Suc i)"
      by (simp add: Suc_diff_Suc Suc_le_lessD del: diff_Suc_Suc)
    from Cons.IH [OF mem] show ?thesis using False idx by simp
  qed
qed

lemma attendants_from_eligible:
  "j \<in> set (fst (available_attendants_from clock cs i n)) \<Longrightarrow>
     role (cs ! (j - i)) = ''attendant''
     \<and> (\<exists>k. n \<le> k \<and> k < snd (available_attendants_from clock cs i n)
              \<and> next_available (cs ! (j - i)) \<le> clock k)"
proof (induction cs arbitrary: i n)
  case Nil
  then show ?case by simp
next
  case (Cons c cs)
  show ?case
  proof (cases "role c = ''attendant''")
    case True
    let ?rest = "available_attendants_from clock cs (Suc i) (Suc n)"
    have reads: "Suc n \<le> snd ?rest" by (rule attendants_from_reads)
    show ?thesis
    proof (cases "j \<in> set (fst ?rest)")
      case True
      then have "Suc i \<le> j" using attendants_from_range by blast
      then have idx: "(c # cs) ! (j - i) = cs ! (j - Suc i)"
        by (simp add: Suc_diff_Suc Suc_le_lessD del: diff_Suc_Suc)
      from Cons.IH [OF True] obtain k where
        "role (cs ! (j - Suc i)) = ''attendant''"
        "Suc n \<le> k" "k < snd ?rest" "next_available (cs ! (j - Suc i)) \<le> clock k"
        by blast
      then show ?thesis using \<open>role c = ''attendant''\<close> idx
        by (auto simp: Let_def intro!: exI [of _ k])
    next
      case False
      with Cons.prems \<open>role c = ''attendant''\<close>
      have "j = i" "next_available c \<le> clock n"
        by (auto simp: Let_def split: if_splits)
      then show ?thesis using \<open>role c = ''attendant''\<close> reads
        by (auto simp: Let_def intro!: exI [of _ n])
    qed
  next
    case False
    with Cons.prems have mem: "j \<in> set (fst (available_attendants_from clock cs (Suc i) n))"
      by simp
    then have "Suc i \<le> j" using attendants_from_range by blast
    then have idx: "(c # cs) ! (j - i) = cs ! (j - Suc i)"
      by (simp add: Suc_diff_Suc Suc_le_lessD del: diff_Suc_Suc)
    from Cons.IH [OF mem] show ?thesis using False idx by simp
  qed
qed

lemma length_remove_nth:
  "i < length xs \<Longrightarrow> length (take i xs @ drop (Suc i) xs) = length xs - 1"
  by simp

lemma sample_from_length:
  "k \<le> length pool \<Longrightarrow> length (fst (sample_from rng r pool k)) = k"
proof (induction rng r pool k rule: sample_from.induct)
  case (1 rng r pool)
  show ?case by simp
next
  case (2 rng r k)
  then show ?case by simp
next
  case (3 rng r p ps k)
  let ?i = "rng r mod length (p # ps)"
  have "?i < length (p # ps)" by simp
  then have "length (take ?i (p # ps) @ drop (Suc ?i) (p # ps)) = length (p # ps) - 1"
    by (rule length_remove_nth)
  then have "k \<le> length (take ?i (p # ps) @ drop (Suc ?i) (p # ps))"
    using "3.prems" by simp
  from "3.IH" [OF refl this] show ?case by (simp add: Let_def)
qed

lemma sample_from_distinct:
  "distinct pool \<Longrightarrow>
     distinct (fst (sample_from rng r pool k)) \<and> set (fst (sample_from rng r pool k)) \<subseteq> set pool"
proof (induction rng r pool k rule: sample_from.induct)
  case (1 rng r pool)
  show ?case by simp
next
  case (2 rng r k)
  show ?case by simp
next
  case (3 rng r p ps k)
  let ?pool = "p # ps"
  let ?i = "rng r mod length ?pool"
  let ?rest = "take ?i ?pool @ drop (Suc ?i) ?pool"
  have i: "?i < length ?pool" by simp
  have pool: "?pool = take ?i ?pool @ ?pool ! ?i # drop (Suc ?i) ?pool"
    using i by (rule id_take_nth_drop)
  have d: "distinct (take ?i ?pool @ ?pool ! ?i # drop (Suc ?i) ?pool)"
    using "3.prems" pool by metis
  then have dr: "distinct ?rest" and notin: "?pool ! ?i \<notin> set ?rest"
    by auto
  have sub: "set ?rest \<subseteq> set ?pool"
    by (metis append_take_drop_id set_append set_drop_subset_set_drop set_take_subset le_SucI order_refl Un_mono subset_trans Un_upper2 le_sup_iff set_drop_subset)
  from "3.IH" [OF refl dr]
  have ih: "distinct (fst (sample_from rng (Suc r) ?rest k))"
           "set (fst (sample_from rng (Suc r) ?rest k)) \<subseteq> set ?rest"
    by simp_all
  have "?pool ! ?i \<in> set ?pool" using i by (rule nth_mem)
  then show ?case using ih notin sub
    by (auto simp: Let_def)
qed

lemma random_choice_mem: "random_choice rng r seq = Inr (x, r') \<Longrightarrow> x \<in> set seq"
  by (auto simp: random_choice_def split: if_splits)

lemma select_captain_mem:
  "select_crew rng r ps ats = Inr sel \<Longrightarrow> sel_captain sel = Some i \<Longrightarrow> i \<in> set (take 5 ps)"
  by (auto simp: select_crew_def split: if_splits sum.splits prod.splits dest: random_choice_mem)

lemma select_first_officer_mem:
  "select_crew rng r ps ats = Inr sel \<Longrightarrow> sel_first_officer sel = Some i \<Longrightarrow>
     i \<in> set (drop 5 ps)"
  by (auto simp: select_crew_def split: if_splits sum.splits prod.splits dest: random_choice_mem)

lemma select_first_officer_none:
  "select_crew rng r ps ats = Inr sel \<Longrightarrow> length ps \<le> 5 \<Longrightarrow> sel_first_officer sel = None"
  by (auto simp: select_crew_def split: if_splits sum.splits prod.splits)

lemma select_attendants_sample:
  "select_crew rng r ps ats = Inr sel \<Longrightarrow>
     \<exists>r'. sel_attendants sel = fst (sample_from rng r' ats (min 4 (length ats)))"
  by (auto simp: select_crew_def random_sample_def split: if_splits sum.splits prod.splits)
     (metis fst_conv)+

lemma select_attendants_props:
  assumes "select_crew rng r ps ats = Inr sel" and "distinct ats"
  shows "distinct (sel_attendants sel)" and "set (sel_attendants sel) \<subseteq> set ats"
    and "length (sel_attendants sel) = min 4 (length ats)"
proof -
  from assms(1) obtain r' where
    s: "sel_attendants sel = fst (sample_from rng r' ats (min 4 (length ats)))"
    using select_attendants_sample by blast
  show "distinct (sel_attendants sel)" and "set (sel_attendants sel) \<subseteq> set ats"
    using sample_from_distinct [OF assms(2), of rng r' "min 4 (length ats)"] s by simp_all
  show "length (sel_attendants sel) = min 4 (length ats)"
    using sample_from_length [of "min 4 (length ats)" ats rng r'] s by simp
qed

lemma select_duration:
  "select_crew rng r ps ats = Inr sel \<Longrightarrow> 1 \<le> sel_duration sel \<and> sel_duration sel \<le> 6"
  by (auto simp: select_crew_def random_randint_def split: if_splits sum.splits prod.splits)

lemma update_member_ids:
  "map crew_id (fst (update_member clock rest fid (crew, n) i)) = map crew_id crew"
  by (cases "i < length crew") (simp_all add: update_member_def map_update list_update_same_conv list_update_beyond)

lemma update_member_roles:
  "map role (fst (update_member clock rest fid (crew, n) i)) = map role crew"
  by (cases "i < length crew") (simp_all add: update_member_def map_update list_update_same_conv list_update_beyond)

lemma update_member_length:
  "length (fst (update_member clock rest fid (crew, n) i)) = length crew"
  by (simp add: update_member_def)

lemma update_member_reads:
  "snd (update_member clock rest fid (crew, n) i) = Suc n"
  by (simp add: update_member_def)

lemma update_optional_ids:
  "map crew_id (fst (update_optional clock rest fid (crew, n) m)) = map crew_id crew"
  by (cases m) (simp_all add: update_optional_def update_member_ids)

lemma update_optional_roles:
  "map role (fst (update_optional clock rest fid (crew, n) m)) = map role crew"
  by (cases m) (simp_all add: update_optional_def update_member_roles)

lemma update_fold_ids:
  "map crew_id (fst (foldl (update_member clock rest fid) st xs)) = map crew_id (fst st)"
proof (induction xs arbitrary: st)
  case Nil
  show ?case by simp
next
  case (Cons x xs)
  obtain crew n where st: "st = (crew, n)" by (cases st)
  show ?case using Cons.IH [of "update_member clock rest fid st x"]
    by (simp add: st update_member_ids)
qed

lemma update_fold_roles:
  "map role (fst (foldl (update_member clock rest fid) st xs)) = map role (fst st)"
proof (induction xs arbitrary: st)
  case Nil
  show ?case by simp
next
  case (Cons x xs)
  obtain crew n where st: "st = (crew, n)" by (cases st)
  show ?case using Cons.IH [of "update_member clock rest fid st x"]
    by (simp add: st update_member_roles)
qed

lemma update_availability_ids:
  "map crew_id (fst (update_availability clock fid sel (crew, n))) = map crew_id crew"
proof -
  let ?rest = "hours (sel_duration sel + 10)"
  obtain c1 n1 where 1: "update_optional clock ?rest fid (crew, n) (sel_captain sel) = (c1, n1)"
    by (cases "update_optional clock ?rest fid (crew, n) (sel_captain sel)")
  obtain c2 n2 where 2: "update_optional clock ?rest fid (c1, n1) (sel_first_officer sel) = (c2, n2)"
    by (cases "update_optional clock ?rest fid (c1, n1) (sel_first_officer sel)")
  have "map crew_id c1 = map crew_id crew"
    using update_optional_ids [of clock ?rest fid crew n "sel_captain sel"] 1 by simp
  moreover have "map crew_id c2 = map crew_id c1"
    using update_optional_ids [of clock ?rest fid c1 n1 "sel_first_officer sel"] 2 by simp
  ultimately show ?thesis
    by (simp add: update_availability_def Let_def 1 2 update_fold_ids)
qed

lemma update_availability_roles:
  "map role (fst (update_availability clock fid sel (crew, n))) = map role crew"
proof -
  let ?rest = "hours (sel_duration sel + 10)"
  obtain c1 n1 where 1: "update_optional clock ?rest fid (crew, n) (sel_captain sel) = (c1, n1)"
    by (cases "update_optional clock ?rest fid (crew, n) (sel_captain sel)")
  obtain c2 n2 where 2: "update_optional clock ?rest fid (c1, n1) (sel_first_officer sel) = (c2, n2)"
    by (cases "update_optional clock ?rest fid (c1, n1) (sel_first_officer sel)")
  have "map role c1 = map role crew"
    using update_optional_roles [of clock ?rest fid crew n "sel_captain sel"] 1 by simp
  moreover have "map role c2 = map role c1"
    using update_optional_roles [of clock ?rest fid c1 n1 "sel_first_officer sel"] 2 by simp
  ultimately show ?thesis
    by (simp add: update_availability_def Let_def 1 2 update_fold_roles)
qed

text \<open>What a successful call fixes: the selection it made and the fields it returns.\<close>

lemma assign_crew_to_flight_fields:
  assumes "assign_crew_to_flight clock rng st fl = Inr (a, st')"
  shows "\<exists>sel. select_crew rng (random_calls st) (fst (pilot_scan clock st))
                  (fst (attendant_scan clock st)) = Inr sel
           \<and> crew_members st' =
               fst (update_availability clock (flight_id fl) sel
                      (crew_members st, snd (attendant_scan clock st)))
           \<and> flight_id a = flight_id fl
           \<and> captain a = map_option (\<lambda>i. crew_id (crew_members st' ! i)) (sel_captain sel)
           \<and> first_officer a =
               map_option (\<lambda>i. crew_id (crew_members st' ! i)) (sel_first_officer sel)
           \<and> attendants a = map (\<lambda>i. crew_id (crew_members st' ! i)) (sel_attendants sel)"
  using assms
  by (auto simp: assign_crew_to_flight_def split: sum.splits prod.splits)

lemma assign_crew_to_flight_ids:
  assumes "assign_crew_to_flight clock rng st fl = Inr (a, st')"
  shows "map crew_id (crew_members st') = map crew_id (crew_members st)"
  using assign_crew_to_flight_fields [OF assms] update_availability_ids by metis

lemma pilot_scan_range:
  "i \<in> set (fst (pilot_scan clock st)) \<Longrightarrow> i < length (crew_members st)"
  using pilots_from_range [of i clock "crew_members st" 0 "now_calls st"]
  by (simp add: pilot_scan_def)

lemma attendant_scan_range:
  "i \<in> set (fst (attendant_scan clock st)) \<Longrightarrow> i < length (crew_members st)"
  using attendants_from_range [of i clock "crew_members st" 0 "snd (pilot_scan clock st)"]
  by (simp add: attendant_scan_def)

lemma pilot_scan_distinct: "distinct (fst (pilot_scan clock st))"
  by (simp add: pilot_scan_def pilots_from_distinct)

lemma attendant_scan_distinct: "distinct (fst (attendant_scan clock st))"
  by (simp add: attendant_scan_def attendants_from_distinct)

lemma crew_id_same:
  assumes "map crew_id crew' = map crew_id crew" and "i < length crew"
  shows "crew_id (crew' ! i) = crew_id (crew ! i)"
proof -
  have "length crew' = length crew" using assms(1) by (rule map_eq_imp_length_eq)
  then have "map crew_id crew' ! i = crew_id (crew' ! i)" using assms(2) by simp
  moreover have "map crew_id crew ! i = crew_id (crew ! i)" using assms(2) by simp
  ultimately show ?thesis using assms(1) by simp
qed

lemma batch_induct:
  assumes step: "\<And>s fl a s'. I s \<Longrightarrow> assign_crew_to_flight clock rng s fl = Inr (a, s')
                   \<Longrightarrow> P s a \<and> I s'"
    and init: "I st"
  shows "\<exists>as st'. assign_all clock rng st fls = Inr (as, st') \<and> length as = length fls
           \<and> (\<forall>k<length fls. P (batch_states clock rng st fls ! k) (as ! k))"
  using init
proof (induction fls arbitrary: st)
  case Nil
  show ?case by simp
next
  case (Cons fl fls)
  obtain a s1 where 1: "assign_crew_to_flight clock rng st fl = Inr (a, s1)"
    using assign_crew_to_flight_total by blast
  from step [OF Cons.prems 1] have Pa: "P st a" and I1: "I s1" by simp_all
  from Cons.IH [OF I1] obtain as s2 where
    2: "assign_all clock rng s1 fls = Inr (as, s2)" "length as = length fls"
       "\<forall>k<length fls. P (batch_states clock rng s1 fls ! k) (as ! k)"
    by blast
  have "P (batch_states clock rng st (fl # fls) ! k) ((a # as) ! k)" if "k < length (fl # fls)" for k
    using that Pa 2(3) by (cases k) (simp_all add: 1)
  then show ?case using 1 2 by simp
qed

lemma index_ids_distinct:
  assumes "distinct (map crew_id crew)" and "distinct xs" and "\<forall>i\<in>set xs. i < length crew"
  shows "distinct (map (\<lambda>i. crew_id (crew ! i)) xs)"
proof -
  have "inj_on (\<lambda>i. crew_id (crew ! i)) (set xs)"
  proof (rule inj_onI)
    fix i j assume "i \<in> set xs" "j \<in> set xs" "crew_id (crew ! i) = crew_id (crew ! j)"
    then have "i < length (map crew_id crew)" "j < length (map crew_id crew)"
        "map crew_id crew ! i = map crew_id crew ! j"
      using assms(3) by simp_all
    then show "i = j" using assms(1) nth_eq_iff_index_eq by blast
  qed
  then show ?thesis using assms(2) by (simp add: distinct_map)
qed

lemma pilot_pool_ids_distinct:
  "distinct (map crew_id (crew_members st)) \<Longrightarrow> distinct (pilot_pool_ids clock st)"
  unfolding pilot_pool_ids_def
  by (rule index_ids_distinct) (auto simp: pilot_scan_distinct pilot_scan_range)

lemma attendant_pool_ids_distinct:
  "distinct (map crew_id (crew_members st)) \<Longrightarrow> distinct (attendant_pool_ids clock st)"
  unfolding attendant_pool_ids_def
  by (rule index_ids_distinct) (auto simp: attendant_scan_distinct attendant_scan_range)

lemma take_drop_disjoint:
  "distinct xs \<Longrightarrow> x \<in> set (take n xs) \<Longrightarrow> y \<in> set (drop n xs) \<Longrightarrow> x \<noteq> y"
  using distinct_append [of "take n xs" "drop n xs"] by auto

lemma step_pilots:
  assumes ok: "assign_crew_to_flight clock rng st fl = Inr (a, st')"
  shows "(\<forall>c. captain a = Some c \<longrightarrow> c \<in> set (take 5 (pilot_pool_ids clock st)))
       \<and> (\<forall>f. first_officer a = Some f \<longrightarrow> f \<in> set (drop 5 (pilot_pool_ids clock st)))
       \<and> (length (pilot_pool_ids clock st) \<le> 5 \<longrightarrow> first_officer a = None)"
proof -
  let ?ps = "fst (pilot_scan clock st)"
  from assign_crew_to_flight_fields [OF ok] obtain sel where
    sel: "select_crew rng (random_calls st) ?ps (fst (attendant_scan clock st)) = Inr sel"
    and cap: "captain a = map_option (\<lambda>i. crew_id (crew_members st' ! i)) (sel_captain sel)"
    and fo: "first_officer a =
               map_option (\<lambda>i. crew_id (crew_members st' ! i)) (sel_first_officer sel)"
    by blast
  have ids: "map crew_id (crew_members st') = map crew_id (crew_members st)"
    using ok by (rule assign_crew_to_flight_ids)
  have same: "crew_id (crew_members st' ! i) = crew_id (crew_members st ! i)" if "i \<in> set ?ps" for i
    using ids pilot_scan_range [OF that] by (rule crew_id_same)
  have "c \<in> set (take 5 (pilot_pool_ids clock st))" if "captain a = Some c" for c
  proof -
    from that cap obtain i where i: "sel_captain sel = Some i" "c = crew_id (crew_members st' ! i)"
      by auto
    from select_captain_mem [OF sel i(1)] have mem: "i \<in> set (take 5 ?ps)" .
    then have "i \<in> set ?ps" by (rule in_set_takeD)
    then have "c = crew_id (crew_members st ! i)" using i(2) same by simp
    then show ?thesis using mem by (auto simp: pilot_pool_ids_def take_map)
  qed
  moreover have "f \<in> set (drop 5 (pilot_pool_ids clock st))" if "first_officer a = Some f" for f
  proof -
    from that fo obtain i where i: "sel_first_officer sel = Some i"
        "f = crew_id (crew_members st' ! i)"
      by auto
    from select_first_officer_mem [OF sel i(1)] have mem: "i \<in> set (drop 5 ?ps)" .
    then have "i \<in> set ?ps" by (rule in_set_dropD)
    then have "f = crew_id (crew_members st ! i)" using i(2) same by simp
    then show ?thesis using mem by (auto simp: pilot_pool_ids_def drop_map)
  qed
  moreover have "first_officer a = None" if "length (pilot_pool_ids clock st) \<le> 5"
    using that select_first_officer_none [OF sel] fo by (simp add: pilot_pool_ids_def)
  ultimately show ?thesis by blast
qed

lemma step_attendants:
  assumes ok: "assign_crew_to_flight clock rng st fl = Inr (a, st')"
    and d: "distinct (map crew_id (crew_members st))"
  shows "distinct (attendants a) \<and> set (attendants a) \<subseteq> set (attendant_pool_ids clock st)
       \<and> length (attendants a) = min 4 (length (attendant_pool_ids clock st))"
proof -
  let ?ats = "fst (attendant_scan clock st)"
  from assign_crew_to_flight_fields [OF ok] obtain sel where
    sel: "select_crew rng (random_calls st) (fst (pilot_scan clock st)) ?ats = Inr sel"
    and atts: "attendants a = map (\<lambda>i. crew_id (crew_members st' ! i)) (sel_attendants sel)"
    by blast
  have ids: "map crew_id (crew_members st') = map crew_id (crew_members st)"
    using ok by (rule assign_crew_to_flight_ids)
  note props = select_attendants_props [OF sel attendant_scan_distinct]
  have range: "\<forall>i\<in>set (sel_attendants sel). i < length (crew_members st)"
    using props(2) attendant_scan_range by blast
  have eq: "attendants a = map (\<lambda>i. crew_id (crew_members st ! i)) (sel_attendants sel)"
    unfolding atts using range crew_id_same [OF ids] by simp
  have "distinct (attendants a)"
    unfolding eq using d props(1) range by (rule index_ids_distinct)
  moreover have "set (attendants a) \<subseteq> set (attendant_pool_ids clock st)"
    unfolding eq attendant_pool_ids_def using props(2) by auto
  moreover have "length (attendants a) = min 4 (length (attendant_pool_ids clock st))"
    unfolding eq attendant_pool_ids_def using props(3) by simp
  ultimately show ?thesis by blast
qed

lemma update_availability_fold:
  "update_availability clock fid sel st =
     foldl (update_member clock (hours (sel_duration sel + 10)) fid) st (selected sel)"
  by (simp add: update_availability_def update_optional_def selected_def Let_def
        split: option.splits)

lemma fold_update_char:
  "foldl (update_member clock rest fid) (crew, n) xs = (crew', n') \<Longrightarrow>
     length crew' = length crew \<and> n' = n + length xs
     \<and> (\<forall>p. p \<notin> set xs \<longrightarrow> crew' ! p = crew ! p)
     \<and> (\<forall>p\<in>set xs. p < length crew \<longrightarrow>
           (\<exists>k. n \<le> k \<and> k < n' \<and> next_available (crew' ! p) = clock k + rest))"
proof (induction xs arbitrary: crew' n' rule: rev_induct)
  case Nil
  then show ?case by simp
next
  case (snoc x xs)
  obtain c1 n1 where 1: "foldl (update_member clock rest fid) (crew, n) xs = (c1, n1)"
    by (cases "foldl (update_member clock rest fid) (crew, n) xs")
  note ih = snoc.IH [OF 1]
  from snoc.prems 1 have 2: "update_member clock rest fid (c1, n1) x = (crew', n')"
    by simp
  then have c': "crew' = c1[x := (c1 ! x)\<lparr>next_available := clock n1 + rest,
                     assigned_flights := assigned_flights (c1 ! x) @ [fid]\<rparr>]"
    and n': "n' = Suc n1"
    by (simp_all add: update_member_def)
  have len: "length crew' = length crew" using c' ih by simp
  have cnt: "n' = n + length (xs @ [x])" using n' ih by simp
  have other: "crew' ! p = crew ! p" if "p \<notin> set (xs @ [x])" for p
    using that c' ih by simp
  have sel: "\<exists>k. n \<le> k \<and> k < n' \<and> next_available (crew' ! p) = clock k + rest"
    if "p \<in> set (xs @ [x])" "p < length crew" for p
  proof (cases "p = x")
    case True
    then have "next_available (crew' ! p) = clock n1 + rest"
      using c' that(2) ih by simp
    moreover have "n \<le> n1" "n1 < n'" using ih n' by simp_all
    ultimately show ?thesis by blast
  next
    case False
    with that have "p \<in> set xs" by simp
    with ih that(2) obtain k where "n \<le> k" "k < n1" "next_available (c1 ! p) = clock k + rest"
      by blast
    moreover have "crew' ! p = c1 ! p" using False c' by simp
    ultimately show ?thesis using n' by (intro exI [of _ k]) simp
  qed
  show ?case using len cnt other sel by blast
qed

lemma selected_eligible:
  assumes sel: "select_crew rng r (fst (pilot_scan clock st)) (fst (attendant_scan clock st)) = Inr sel"
    and p: "p \<in> set (selected sel)"
  shows "p < length (crew_members st)
       \<and> (\<exists>k. k < snd (attendant_scan clock st) \<and> next_available (crew_members st ! p) \<le> clock k)"
proof -
  have "p \<in> set (fst (pilot_scan clock st)) \<or> p \<in> set (fst (attendant_scan clock st))"
    using p select_captain_mem [OF sel] select_first_officer_mem [OF sel]
      select_attendants_props(2) [OF sel attendant_scan_distinct]
    by (auto simp: selected_def split: option.splits)
       (metis in_set_takeD in_set_dropD)+
  then show ?thesis
  proof
    assume m: "p \<in> set (fst (pilot_scan clock st))"
    from pilots_from_eligible [of p clock "crew_members st" 0 "now_calls st"] m
    obtain k where "k < snd (pilot_scan clock st)" "next_available (crew_members st ! p) \<le> clock k"
      by (auto simp: pilot_scan_def)
    moreover have "snd (pilot_scan clock st) \<le> snd (attendant_scan clock st)"
      by (simp add: attendant_scan_def attendants_from_reads)
    ultimately show ?thesis using pilot_scan_range [OF m] by (intro conjI exI [of _ k]) simp_all
  next
    assume m: "p \<in> set (fst (attendant_scan clock st))"
    from attendants_from_eligible [of p clock "crew_members st" 0 "snd (pilot_scan clock st)"] m
    obtain k where "k < snd (attendant_scan clock st)"
        "next_available (crew_members st ! p) \<le> clock k"
      by (auto simp: attendant_scan_def)
    then show ?thesis using attendant_scan_range [OF m] by (intro conjI exI [of _ k]) simp_all
  qed
qed

text \<open>The effect of one flight on the crew list, position by position.\<close>

lemma step_effect:
  assumes ok: "assign_crew_to_flight clock rng st fl = Inr (a, st')"
  shows "\<exists>sel. select_crew rng (random_calls st) (fst (pilot_scan clock st))
                  (fst (attendant_scan clock st)) = Inr sel
           \<and> length (crew_members st') = length (crew_members st)
           \<and> (\<forall>p. p \<notin> set (selected sel) \<longrightarrow> crew_members st' ! p = crew_members st ! p)
           \<and> (\<forall>p\<in>set (selected sel).
                 \<exists>k. snd (attendant_scan clock st) \<le> k
                   \<and> next_available (crew_members st' ! p)
                       = clock k + hours (sel_duration sel + 10))"
proof -
  from assign_crew_to_flight_fields [OF ok] obtain sel where
    sel: "select_crew rng (random_calls st) (fst (pilot_scan clock st))
            (fst (attendant_scan clock st)) = Inr sel"
    and crew: "crew_members st' =
               fst (update_availability clock (flight_id fl) sel
                      (crew_members st, snd (attendant_scan clock st)))"
    by blast
  obtain c' n' where f: "foldl (update_member clock (hours (sel_duration sel + 10)) (flight_id fl))
              (crew_members st, snd (attendant_scan clock st)) (selected sel) = (c', n')"
    by (cases "foldl (update_member clock (hours (sel_duration sel + 10)) (flight_id fl))
              (crew_members st, snd (attendant_scan clock st)) (selected sel)")
  have c': "crew_members st' = c'" using crew f by (simp add: update_availability_fold)
  note ch = fold_update_char [OF f]
  have "\<exists>k. snd (attendant_scan clock st) \<le> k
           \<and> next_available (crew_members st' ! p) = clock k + hours (sel_duration sel + 10)"
    if "p \<in> set (selected sel)" for p
    using that ch selected_eligible [OF sel that] c' by blast
  then show ?thesis using sel ch c' by blast
qed

lemma hours_rest_positive:
  "1 \<le> d \<Longrightarrow> 0 < hours (d + 10)"
  by (simp add: hours_def)

lemma step_monotone:
  assumes ok: "assign_crew_to_flight clock rng st fl = Inr (a, st')"
    and mono: "\<forall>i j. i \<le> j \<longrightarrow> clock i \<le> clock j + hours 11"
  shows "length (crew_members st') = length (crew_members st)
       \<and> (\<forall>p<length (crew_members st).
            next_available (crew_members st ! p) \<le> next_available (crew_members st' ! p))"
proof -
  from step_effect [OF ok] obtain sel where
    sel: "select_crew rng (random_calls st) (fst (pilot_scan clock st))
            (fst (attendant_scan clock st)) = Inr sel"
    and len: "length (crew_members st') = length (crew_members st)"
    and other: "\<forall>p. p \<notin> set (selected sel) \<longrightarrow> crew_members st' ! p = crew_members st ! p"
    and upd: "\<forall>p\<in>set (selected sel).
                 \<exists>k. snd (attendant_scan clock st) \<le> k
                   \<and> next_available (crew_members st' ! p)
                       = clock k + hours (sel_duration sel + 10)"
    by blast
  have pos: "0 < hours (sel_duration sel + 10)"
    using select_duration [OF sel] by (simp add: hours_rest_positive)
  have "next_available (crew_members st ! p) \<le> next_available (crew_members st' ! p)" for p
  proof (cases "p \<in> set (selected sel)")
    case True
    from upd True obtain k where k: "snd (attendant_scan clock st) \<le> k"
      "next_available (crew_members st' ! p) = clock k + hours (sel_duration sel + 10)"
      by blast
    from selected_eligible [OF sel True] obtain k0 where
      k0: "k0 < snd (attendant_scan clock st)" "next_available (crew_members st ! p) \<le> clock k0"
      by blast
    have "clock k0 \<le> clock k + hours 11" using mono k(1) k0(1) by simp
    moreover have "hours 11 \<le> hours (sel_duration sel + 10)"
      using select_duration [OF sel] by (simp add: hours_def)
    ultimately show ?thesis using k(2) k0(2) by simp
  next
    case False
    then show ?thesis using other by simp
  qed
  then show ?thesis using len by simp
qed

lemma batch_states_steps:
  "length (batch_states clock rng st fls) = Suc (length fls)
   \<and> batch_states clock rng st fls ! 0 = st
   \<and> (\<forall>k<length fls. \<exists>a. assign_crew_to_flight clock rng (batch_states clock rng st fls ! k) (fls ! k)
                              = Inr (a, batch_states clock rng st fls ! Suc k))
   \<and> (\<exists>as. assign_all clock rng st fls = Inr (as, batch_states clock rng st fls ! length fls))"
proof (induction fls arbitrary: st)
  case Nil
  show ?case by simp
next
  case (Cons fl fls)
  obtain a s1 where 1: "assign_crew_to_flight clock rng st fl = Inr (a, s1)"
    using assign_crew_to_flight_total by blast
  note ih = Cons.IH [of s1]
  from ih obtain as where as: "assign_all clock rng s1 fls = Inr (as, batch_states clock rng s1 fls ! length fls)"
    by blast
  have "\<exists>a'. assign_crew_to_flight clock rng (batch_states clock rng st (fl # fls) ! k) ((fl # fls) ! k)
              = Inr (a', batch_states clock rng st (fl # fls) ! Suc k)"
    if "k < length (fl # fls)" for k
    using that 1 ih by (cases k) simp_all
  then show ?case using 1 ih as by simp
qed

lemma sightings_of_ids:
  "map fst (sightings_of a) =
     (if truthy (captain a) then [the (captain a)] else [])
     @ (if truthy (first_officer a) then [the (first_officer a)] else [])
     @ attendants a"
  by (cases "captain a"; cases "first_officer a")
     (simp_all add: sightings_of_def pilot_sighting_def comp_def)

lemma selected_distinct:
  assumes sel: "select_crew rng r (fst (pilot_scan clock st)) (fst (attendant_scan clock st)) = Inr sel"
  shows "distinct (selected sel)"
proof -
  let ?ps = "fst (pilot_scan clock st)"
  let ?ats = "fst (attendant_scan clock st)"
  note att = select_attendants_props [OF sel attendant_scan_distinct]
  have pilot_role: "role (crew_members st ! p) = ''pilot''" if "p \<in> set ?ps" for p
    using pilots_from_eligible [of p clock "crew_members st" 0 "now_calls st"] that
    by (simp add: pilot_scan_def)
  have att_role: "role (crew_members st ! p) = ''attendant''" if "p \<in> set ?ats" for p
    using attendants_from_eligible [of p clock "crew_members st" 0 "snd (pilot_scan clock st)"] that
    by (simp add: attendant_scan_def)
  have disj: "p \<notin> set (sel_attendants sel)" if "p \<in> set ?ps" for p
  proof
    assume "p \<in> set (sel_attendants sel)"
    then have "p \<in> set ?ats" using att(2) by blast
    then show False using pilot_role [OF that] att_role by simp
  qed
  have cap: "i \<in> set (take 5 ?ps)" if "sel_captain sel = Some i" for i
    using select_captain_mem [OF sel that] .
  have fo: "i \<in> set (drop 5 ?ps)" if "sel_first_officer sel = Some i" for i
    using select_first_officer_mem [OF sel that] .
  have ne: "i \<noteq> j" if "sel_captain sel = Some i" "sel_first_officer sel = Some j" for i j
    using take_drop_disjoint [OF pilot_scan_distinct cap [OF that(1)] fo [OF that(2)]] .
  have cap': "i \<in> set ?ps" if "sel_captain sel = Some i" for i
    using cap [OF that] by (rule in_set_takeD)
  have fo': "i \<in> set ?ps" if "sel_first_officer sel = Some i" for i
    using fo [OF that] by (rule in_set_dropD)
  show ?thesis
    using att(1) ne disj cap' fo'
    by (auto simp: selected_def split: option.splits)
qed

lemma selected_attendant_role:
  assumes sel: "select_crew rng r (fst (pilot_scan clock st)) (fst (attendant_scan clock st)) = Inr sel"
    and p: "p \<in> set (sel_attendants sel)"
  shows "p \<in> attendant_positions st"
proof -
  have m: "p \<in> set (fst (attendant_scan clock st))"
    using select_attendants_props(2) [OF sel attendant_scan_distinct] p by blast
  then have "role (crew_members st ! p) = ''attendant''"
    using attendants_from_eligible [of p clock "crew_members st" 0 "snd (pilot_scan clock st)"]
    by (simp add: attendant_scan_def)
  then show ?thesis using attendant_scan_range [OF m] by (simp add: attendant_positions_def)
qed

lemma assign_crew_to_flight_roles:
  assumes "assign_crew_to_flight clock rng st fl = Inr (a, st')"
  shows "map role (crew_members st') = map role (crew_members st)"
  using assign_crew_to_flight_fields [OF assms] update_availability_roles by metis

lemma attendant_positions_same:
  assumes "map role (crew_members st') = map role (crew_members st)"
  shows "attendant_positions st' = attendant_positions st"
proof -
  have len: "length (crew_members st') = length (crew_members st)"
    using assms by (rule map_eq_imp_length_eq)
  have "role (crew_members st' ! p) = role (crew_members st ! p)" if "p < length (crew_members st)" for p
  proof -
    have "map role (crew_members st') ! p = role (crew_members st' ! p)" using that len by simp
    moreover have "map role (crew_members st) ! p = role (crew_members st ! p)" using that by simp
    ultimately show ?thesis using assms by simp
  qed
  then show ?thesis using len by (auto simp: attendant_positions_def)
qed

lemma step_frozen:
  assumes ok: "assign_crew_to_flight (\<lambda>k. now) rng st fl = Inr (a, st')"
    and d: "distinct (map crew_id (crew_members st))"
  shows "\<exists>S. S \<subseteq> eligible_at now st \<and> eligible_at now st' = eligible_at now st - S
           \<and> distinct (map fst (sightings_of a))
           \<and> fst ` set (sightings_of a) \<subseteq> (\<lambda>p. crew_id (crew_members st ! p)) ` S
           \<and> set (attendants a)
               \<subseteq> (\<lambda>p. crew_id (crew_members st ! p)) ` attendant_positions st"
proof -
  let ?clock = "\<lambda>k::nat. now"
  let ?id = "\<lambda>p. crew_id (crew_members st ! p)"
  from step_effect [OF ok] obtain sel where
    sel: "select_crew rng (random_calls st) (fst (pilot_scan ?clock st))
            (fst (attendant_scan ?clock st)) = Inr sel"
    and len: "length (crew_members st') = length (crew_members st)"
    and other: "\<forall>p. p \<notin> set (selected sel) \<longrightarrow> crew_members st' ! p = crew_members st ! p"
    and upd: "\<forall>p\<in>set (selected sel).
                 \<exists>k. snd (attendant_scan ?clock st) \<le> k
                   \<and> next_available (crew_members st' ! p) = now + hours (sel_duration sel + 10)"
    by blast
  from assign_crew_to_flight_fields [OF ok] sel have
    cap: "captain a = map_option (\<lambda>i. crew_id (crew_members st' ! i)) (sel_captain sel)"
    and fo: "first_officer a =
               map_option (\<lambda>i. crew_id (crew_members st' ! i)) (sel_first_officer sel)"
    and atts: "attendants a = map (\<lambda>i. crew_id (crew_members st' ! i)) (sel_attendants sel)"
    by auto
  let ?S = "set (selected sel)"
  have elig: "p < length (crew_members st) \<and> next_available (crew_members st ! p) \<le> now"
    if "p \<in> ?S" for p
    using selected_eligible [OF sel that] by auto
  have sub: "?S \<subseteq> eligible_at now st"
    using elig by (auto simp: eligible_at_def)
  have pos: "0 < hours (sel_duration sel + 10)"
    using select_duration [OF sel] by (simp add: hours_rest_positive)
  have busy: "\<not> next_available (crew_members st' ! p) \<le> now" if "p \<in> ?S" for p
    using upd that pos by auto
  have E: "eligible_at now st' = eligible_at now st - ?S"
    using len other busy sub by (auto simp: eligible_at_def)
  have ids: "map crew_id (crew_members st') = map crew_id (crew_members st)"
    using ok by (rule assign_crew_to_flight_ids)
  have same: "crew_id (crew_members st' ! p) = ?id p" if "p \<in> ?S" for p
    using ids elig [OF that] crew_id_same by blast
  have range: "\<forall>p\<in>?S. p < length (crew_members st)" using elig by blast
  have dist: "distinct (map ?id (selected sel))"
    using d selected_distinct [OF sel] range by (rule index_ids_distinct)
  have cap': "captain a = map_option ?id (sel_captain sel)"
    unfolding cap using same by (cases "sel_captain sel") (simp_all add: selected_def)
  have fo': "first_officer a = map_option ?id (sel_first_officer sel)"
    unfolding fo using same by (cases "sel_first_officer sel") (simp_all add: selected_def)
  have atts': "attendants a = map ?id (sel_attendants sel)"
    unfolding atts using same by (simp add: selected_def)
  have dsight: "distinct (map fst (sightings_of a))"
    using dist unfolding sightings_of_ids cap' fo' atts'
    by (cases "sel_captain sel"; cases "sel_first_officer sel") (auto simp: selected_def)
  have ssight: "fst ` set (sightings_of a) \<subseteq> ?id ` ?S"
  proof -
    have "set (map fst (sightings_of a)) \<subseteq> ?id ` ?S"
      unfolding sightings_of_ids cap' fo' atts'
      by (cases "sel_captain sel"; cases "sel_first_officer sel") (auto simp: selected_def)
    then show ?thesis by simp
  qed
  have satt: "set (attendants a) \<subseteq> ?id ` attendant_positions st"
    unfolding atts' using selected_attendant_role [OF sel] by auto
  show ?thesis using sub E dsight ssight satt by blast
qed

lemma batch_frozen:
  assumes "assign_all (\<lambda>k. now) rng st fls = Inr (as, st')"
    and "distinct (map crew_id (crew_members st))"
  shows "distinct (map fst (sightings as))
       \<and> fst ` set (sightings as) \<subseteq> (\<lambda>p. crew_id (crew_members st ! p)) ` eligible_at now st
       \<and> set (concat (map attendants as))
           \<subseteq> (\<lambda>p. crew_id (crew_members st ! p)) ` attendant_positions st"
  using assms
proof (induction fls arbitrary: st as)
  case Nil
  then show ?case by (simp add: sightings_def)
next
  case (Cons fl fls)
  let ?id = "\<lambda>p. crew_id (crew_members st ! p)"
  from Cons.prems(1) obtain a s1 as1 where
    1: "assign_crew_to_flight (\<lambda>k. now) rng st fl = Inr (a, s1)"
    and 2: "assign_all (\<lambda>k. now) rng s1 fls = Inr (as1, st')"
    and as: "as = a # as1"
    by (auto split: sum.splits prod.splits)
  have ids: "map crew_id (crew_members s1) = map crew_id (crew_members st)"
    using 1 by (rule assign_crew_to_flight_ids)
  have d1: "distinct (map crew_id (crew_members s1))" using ids Cons.prems(2) by simp
  have len: "length (crew_members s1) = length (crew_members st)"
    using ids by (rule map_eq_imp_length_eq)
  have same: "crew_id (crew_members s1 ! p) = ?id p" if "p < length (crew_members st)" for p
    using ids that by (rule crew_id_same)
  from step_frozen [OF 1 Cons.prems(2)] obtain S where
    S: "S \<subseteq> eligible_at now st" "eligible_at now s1 = eligible_at now st - S"
       "distinct (map fst (sightings_of a))"
       "fst ` set (sightings_of a) \<subseteq> ?id ` S"
       "set (attendants a) \<subseteq> ?id ` attendant_positions st"
    by blast
  from Cons.IH [OF 2 d1] have ih:
    "distinct (map fst (sightings as1))"
    "fst ` set (sightings as1) \<subseteq> (\<lambda>p. crew_id (crew_members s1 ! p)) ` eligible_at now s1"
    "set (concat (map attendants as1))
       \<subseteq> (\<lambda>p. crew_id (crew_members s1 ! p)) ` attendant_positions s1"
    by simp_all
  have pos: "attendant_positions s1 = attendant_positions st"
    using assign_crew_to_flight_roles [OF 1] by (rule attendant_positions_same)
  have img1: "(\<lambda>p. crew_id (crew_members s1 ! p)) ` eligible_at now s1 = ?id ` (eligible_at now st - S)"
    unfolding S(2) using same by (auto simp: eligible_at_def intro!: image_cong)
  have img2: "(\<lambda>p. crew_id (crew_members s1 ! p)) ` attendant_positions s1
                = ?id ` attendant_positions st"
    unfolding pos using same by (auto simp: attendant_positions_def intro!: image_cong)
  have inj: "inj_on ?id {p. p < length (crew_members st)}"
  proof (rule inj_onI)
    fix i j assume "i \<in> {p. p < length (crew_members st)}" "j \<in> {p. p < length (crew_members st)}"
      "?id i = ?id j"
    then have "i < length (map crew_id (crew_members st))" "j < length (map crew_id (crew_members st))"
        "map crew_id (crew_members st) ! i = map crew_id (crew_members st) ! j"
      by simp_all
    then show "i = j" using Cons.prems(2) nth_eq_iff_index_eq by blast
  qed
  have Esub: "eligible_at now st \<subseteq> {p. p < length (crew_members st)}"
    by (auto simp: eligible_at_def)
  have disj: "?id ` S \<inter> ?id ` (eligible_at now st - S) = {}"
  proof -
    have "?id ` S \<inter> ?id ` (eligible_at now st - S) = ?id ` (S \<inter> (eligible_at now st - S))"
      using inj_on_image_Int [OF inj, of S "eligible_at now st - S"] S(1) Esub by blast
    then show ?thesis by simp
  qed
  have "fst ` set (sightings_of a) \<inter> fst ` set (sightings as1) = {}"
    using S(4) ih(2) disj unfolding img1 by blast
  then have dist: "distinct (map fst (sightings (a # as1)))"
    using S(3) ih(1) by (simp add: sightings_def)
  have split: "fst ` set (sightings (a # as1))
                 = fst ` set (sightings_of a) \<union> fst ` set (sightings as1)"
    by (simp add: sightings_def image_Un)
  have sub: "fst ` set (sightings (a # as1)) \<subseteq> ?id ` eligible_at now st"
    unfolding split using S(1) S(4) ih(2) unfolding img1 by blast
  have att: "set (concat (map attendants (a # as1))) \<subseteq> ?id ` attendant_positions st"
    using S(5) ih(3) unfolding img2 by auto
  show ?case unfolding as using dist sub att by blast
qed

lemma previous_flight_new:
  "crew \<notin> fst ` set seen \<Longrightarrow> previous_flight seen crew = None"
  by (auto simp: previous_flight_def filter_empty_conv)

lemma distinct_no_repeat:
  assumes "distinct (map fst ss)"
  shows "repeat_issues previous_flight ss = []"
proof -
  have "repeat_issue previous_flight (take j ss) (ss ! j) = []" if "j < length ss" for j
  proof -
    have "ss = take j ss @ ss ! j # drop (Suc j) ss" using that by (rule id_take_nth_drop)
    then have "map fst ss = map fst (take j ss) @ fst (ss ! j) # map fst (drop (Suc j) ss)"
      by (metis list.simps(9) map_append)
    then have "fst (ss ! j) \<notin> set (map fst (take j ss))"
      using assms by (metis distinct_append distinct.simps(2) disjoint_iff list.set_intros(1) not_distinct_conv_prefix)
    then have "previous_flight (take j ss) (fst (ss ! j)) = None"
      by (intro previous_flight_new) simp
    then show ?thesis by (simp add: repeat_issue_def)
  qed
  then show ?thesis by (simp add: repeat_issues_def)
qed

lemma attendants_in_sightings:
  "concat (map attendants as) =
     map fst (filter (\<lambda>s. snd (snd s) = ''MEDIUM'') (sightings as))"
proof (induction as)
  case Nil
  show ?case by (simp add: sightings_def)
next
  case (Cons a as)
  have "map fst (filter (\<lambda>s. snd (snd s) = ''MEDIUM'') (sightings_of a)) = attendants a"
    by (simp add: sightings_of_def pilot_sighting_def comp_def split: option.splits)
  with Cons show ?case by (simp add: sightings_def)
qed

lemma batch_steps_assignments:
  "assign_all clock rng st fls = Inr (as, st') \<Longrightarrow>
     \<forall>k<length fls. assign_crew_to_flight clock rng (batch_states clock rng st fls ! k) (fls ! k)
                      = Inr (as ! k, batch_states clock rng st fls ! Suc k)"
proof (induction fls arbitrary: st as)
  case Nil
  show ?case by simp
next
  case (Cons fl fls)
  from Cons.prems obtain a s1 as1 where
    1: "assign_crew_to_flight clock rng st fl = Inr (a, s1)"
    and 2: "assign_all clock rng s1 fls = Inr (as1, st')"
    and as: "as = a # as1"
    by (auto split: sum.splits prod.splits)
  note ih = Cons.IH [OF 2]
  have "assign_crew_to_flight clock rng (batch_states clock rng st (fl # fls) ! k) ((fl # fls) ! k)
          = Inr ((a # as1) ! k, batch_states clock rng st (fl # fls) ! Suc k)"
    if "k < length (fl # fls)" for k
  proof (cases k)
    case 0
    have "batch_states clock rng s1 fls ! 0 = s1"
      using batch_states_steps [of clock rng s1 fls] by simp
    then show ?thesis using 0 1 by simp
  next
    case (Suc j)
    then have "j < length fls" using that by simp
    with ih show ?thesis using Suc 1 by simp
  qed
  then show ?case unfolding as by blast
qed

lemma attendant_pool_eligible:
  assumes "p \<in> set (fst (attendant_scan (\<lambda>k. now) st))"
  shows "p \<in> eligible_at now st"
  using attendants_from_eligible [of p "\<lambda>k. now" "crew_members st" 0 "snd (pilot_scan (\<lambda>k. now) st)"]
    attendant_scan_range [OF assms] assms
  by (auto simp: attendant_scan_def eligible_at_def)

lemma attendants_in_sightings_of: "set (attendants a) \<subseteq> fst ` set (sightings_of a)"
proof -
  have "set (attendants a) \<subseteq> set (map fst (sightings_of a))"
    unfolding sightings_of_ids by auto
  then show ?thesis by simp
qed

text \<open>Along a batch with a frozen clock the crew ids stay and the free positions shrink.\<close>

lemma frozen_states:
  assumes d: "distinct (map crew_id (crew_members st))"
    and l: "l \<le> length fls"
  shows "map crew_id (crew_members (batch_states (\<lambda>k. now) rng st fls ! l))
           = map crew_id (crew_members st)
       \<and> (\<forall>k\<le>l. eligible_at now (batch_states (\<lambda>k. now) rng st fls ! l)
                     \<subseteq> eligible_at now (batch_states (\<lambda>k. now) rng st fls ! k))"
  using l
proof (induction l)
  case 0
  show ?case using batch_states_steps [of "\<lambda>k. now" rng st fls] by simp
next
  case (Suc l)
  let ?s = "\<lambda>k. batch_states (\<lambda>k. now) rng st fls ! k"
  from Suc.prems have ll: "l \<le> length fls" "l < length fls" by simp_all
  note ih = Suc.IH [OF ll(1)]
  from batch_states_steps [of "\<lambda>k. now" rng st fls] ll(2) obtain a where
    step: "assign_crew_to_flight (\<lambda>k. now) rng (?s l) (fls ! l) = Inr (a, ?s (Suc l))"
    by blast
  have dl: "distinct (map crew_id (crew_members (?s l)))" using ih d by simp
  have ids: "map crew_id (crew_members (?s (Suc l))) = map crew_id (crew_members st)"
    using assign_crew_to_flight_ids [OF step] ih by simp
  from step_frozen [OF step dl] have sub: "eligible_at now (?s (Suc l)) \<subseteq> eligible_at now (?s l)"
    by blast
  have "eligible_at now (?s (Suc l)) \<subseteq> eligible_at now (?s k)" if "k \<le> Suc l" for k
  proof (cases "k = Suc l")
    case True
    then show ?thesis by simp
  next
    case False
    with that have "k \<le> l" by simp
    with ih sub show ?thesis by blast
  qed
  then show ?case using ids by blast
qed

lemma frozen_later_pool_disjoint:
  assumes d: "distinct (map crew_id (crew_members st))"
    and run: "assign_all (\<lambda>k. now) rng st fls = Inr (as, st')"
    and kl: "k < l" "l \<le> length fls"
  shows "set (attendants (as ! k))
           \<inter> set (attendant_pool_ids (\<lambda>k. now) (batch_states (\<lambda>k. now) rng st fls ! l)) = {}"
proof -
  let ?s = "\<lambda>k. batch_states (\<lambda>k. now) rng st fls ! k"
  let ?id = "\<lambda>p. crew_id (crew_members st ! p)"
  from kl have k: "k < length fls" "k \<le> length fls" "Suc k \<le> l" by simp_all
  have step: "assign_crew_to_flight (\<lambda>k. now) rng (?s k) (fls ! k) = Inr (as ! k, ?s (Suc k))"
    using batch_steps_assignments [OF run] k(1) by blast
  have idk: "map crew_id (crew_members (?s k)) = map crew_id (crew_members st)"
    using frozen_states [OF d k(2)] by blast
  have idl: "map crew_id (crew_members (?s l)) = map crew_id (crew_members st)"
    and El: "eligible_at now (?s l) \<subseteq> eligible_at now (?s (Suc k))"
    using frozen_states [OF d kl(2), of now rng] k(3) by blast+
  have dk: "distinct (map crew_id (crew_members (?s k)))" using idk d by simp
  from step_frozen [OF step dk] obtain S where
    S: "S \<subseteq> eligible_at now (?s k)" "eligible_at now (?s (Suc k)) = eligible_at now (?s k) - S"
       "fst ` set (sightings_of (as ! k)) \<subseteq> (\<lambda>p. crew_id (crew_members (?s k) ! p)) ` S"
    by blast
  have lenk: "length (crew_members (?s k)) = length (crew_members st)"
    using idk by (rule map_eq_imp_length_eq)
  have lenl: "length (crew_members (?s l)) = length (crew_members st)"
    using idl by (rule map_eq_imp_length_eq)
  have Sr: "\<forall>p\<in>S. p < length (crew_members st)"
    using S(1) lenk by (auto simp: eligible_at_def)
  have att: "set (attendants (as ! k)) \<subseteq> ?id ` S"
  proof
    fix x assume "x \<in> set (attendants (as ! k))"
    then have "x \<in> (\<lambda>p. crew_id (crew_members (?s k) ! p)) ` S"
      using attendants_in_sightings_of S(3) by blast
    then obtain p where p: "p \<in> S" "x = crew_id (crew_members (?s k) ! p)" by blast
    then have "x = ?id p" using crew_id_same [OF idk] Sr by simp
    then show "x \<in> ?id ` S" using p(1) by blast
  qed
  have pool: "set (attendant_pool_ids (\<lambda>k. now) (?s l)) \<subseteq> ?id ` (eligible_at now (?s l))"
  proof
    fix x assume "x \<in> set (attendant_pool_ids (\<lambda>k. now) (?s l))"
    then obtain p where p: "p \<in> set (fst (attendant_scan (\<lambda>k. now) (?s l)))"
        "x = crew_id (crew_members (?s l) ! p)"
      by (auto simp: attendant_pool_ids_def)
    have pe: "p \<in> eligible_at now (?s l)" using p(1) by (rule attendant_pool_eligible)
    then have "p < length (crew_members st)" using lenl by (simp add: eligible_at_def)
    then have "x = ?id p" using p(2) crew_id_same [OF idl] by simp
    then show "x \<in> ?id ` (eligible_at now (?s l))" using pe by blast
  qed
  have inj: "inj_on ?id {p. p < length (crew_members st)}"
  proof (rule inj_onI)
    fix i j assume "i \<in> {p. p < length (crew_members st)}" "j \<in> {p. p < length (crew_members st)}"
      "?id i = ?id j"
    then have "i < length (map crew_id (crew_members st))" "j < length (map crew_id (crew_members st))"
        "map crew_id (crew_members st) ! i = map crew_id (crew_members st) ! j"
      by simp_all
    then show "i = j" using d nth_eq_iff_index_eq by blast
  qed
  have Er: "eligible_at now (?s l) \<subseteq> {p. p < length (crew_members st)}"
    using lenl by (auto simp: eligible_at_def)
  have Sr': "S \<subseteq> {p. p < length (crew_members st)}" using Sr by blast
  have "S \<inter> eligible_at now (?s l) = {}" using El S(2) by blast
  then have "?id ` S \<inter> ?id ` (eligible_at now (?s l)) = {}"
    using inj_on_image_Int [OF inj Sr' Er] by simp
  then show ?thesis using att pool by blast
qed

lemma frozen_attendant_pool_length:
  "length (fst (available_attendants_from (\<lambda>k. now) cs i n))
     = length (filter (\<lambda>c. role c = ''attendant'' \<and> next_available c \<le> now) cs)"
  by (induction cs arbitrary: i n) (simp_all add: Let_def)

lemma attendant_ids_image:
  "(\<lambda>p. crew_id (crew_members st ! p)) ` attendant_positions st
     = crew_id ` {c \<in> set (crew_members st). role c = ''attendant''}"
  by (auto simp: attendant_positions_def in_set_conv_nth image_iff)

lemma frozen_all_free_first_flight:
  assumes d: "distinct (map crew_id (crew_members st))"
    and two: "length (filter (\<lambda>c. role c = ''attendant'') (crew_members st)) = 2"
    and free: "\<forall>c\<in>set (crew_members st). role c = ''attendant'' \<longrightarrow> next_available c \<le> now"
    and run: "assign_all (\<lambda>k. now) rng st [f1, f2, f3] = Inr (as, st')"
  shows "set (attendants (as ! 0)) = crew_id ` {c \<in> set (crew_members st). role c = ''attendant''}
       \<and> length (attendants (as ! 0)) = 2
       \<and> attendants (as ! 1) = [] \<and> attendants (as ! 2) = []
       \<and> attendant_pool_ids (\<lambda>k. now) (batch_states (\<lambda>k. now) rng st [f1, f2, f3] ! 1) = []
       \<and> attendant_pool_ids (\<lambda>k. now) (batch_states (\<lambda>k. now) rng st [f1, f2, f3] ! 2) = []"
proof -
  let ?fls = "[f1, f2, f3]"
  let ?clock = "\<lambda>k::nat. now"
  let ?s = "\<lambda>k. batch_states ?clock rng st ?fls ! k"
  let ?A = "crew_id ` {c \<in> set (crew_members st). role c = ''attendant''}"
  have s0: "?s 0 = st" using batch_states_steps [of ?clock rng st ?fls] by simp
  have steps: "\<forall>k<3. assign_crew_to_flight ?clock rng (?s k) (?fls ! k) = Inr (as ! k, ?s (Suc k))"
    using batch_steps_assignments [OF run] by simp
  have dk: "distinct (map crew_id (crew_members (?s k)))" if "k \<le> 3" for k
    using frozen_states [OF d, of k ?fls now rng] that d by simp
  have att: "distinct (attendants (as ! k))
           \<and> set (attendants (as ! k)) \<subseteq> set (attendant_pool_ids ?clock (?s k))
           \<and> length (attendants (as ! k)) = min 4 (length (attendant_pool_ids ?clock (?s k)))"
    if "k < 3" for k
  proof -
    from steps that have "assign_crew_to_flight ?clock rng (?s k) (?fls ! k) = Inr (as ! k, ?s (Suc k))"
      by blast
    moreover have "distinct (map crew_id (crew_members (?s k)))" using dk [of k] that by simp
    ultimately show ?thesis by (rule step_attendants)
  qed
  have "filter (\<lambda>c. role c = ''attendant'' \<and> next_available c \<le> now) (crew_members st)
          = filter (\<lambda>c. role c = ''attendant'') (crew_members st)"
    using free by (intro filter_cong) auto
  then have p0: "length (attendant_pool_ids ?clock st) = 2"
    using two by (simp add: attendant_pool_ids_def attendant_scan_def frozen_attendant_pool_length)
  have l0: "length (attendants (as ! 0)) = 2" and d0: "distinct (attendants (as ! 0))"
    using att [of 0] s0 p0 by simp_all
  have len: "length as = 3" using assign_all_total [of ?clock rng st ?fls] run by simp
  then obtain a0 a1 a2 where as: "as = [a0, a1, a2]"
    by (auto simp: length_Suc_conv numeral_3_eq_3)
  note fr = batch_frozen [OF run d]
  have sub: "set (concat (map attendants as))
               \<subseteq> (\<lambda>p. crew_id (crew_members st ! p)) ` attendant_positions st"
    using fr by blast
  have dc: "distinct (concat (map attendants as))"
    unfolding attendants_in_sightings using fr by (simp add: distinct_map_filter)
  have cA: "card ?A \<le> 2"
  proof -
    have "card ?A \<le> card {c \<in> set (crew_members st). role c = ''attendant''}"
      by (rule card_image_le) simp
    also have "\<dots> = card (set (filter (\<lambda>c. role c = ''attendant'') (crew_members st)))"
      by simp
    also have "\<dots> \<le> 2" using card_length [of "filter (\<lambda>c. role c = ''attendant'') (crew_members st)"] two
      by simp
    finally show ?thesis .
  qed
  have subA: "set (concat (map attendants as)) \<subseteq> ?A"
    using sub unfolding attendant_ids_image .
  have finA: "finite ?A" by simp
  have "card (set (concat (map attendants as))) \<le> card ?A"
    using subA finA by (rule card_mono [rotated])
  then have lc: "length (concat (map attendants as)) \<le> 2"
    using distinct_card [OF dc] cA by simp
  have a12: "attendants (as ! 1) = []" "attendants (as ! 2) = []"
    using lc l0 unfolding as by simp_all
  have "set (attendants (as ! 0)) \<subseteq> ?A" using subA unfolding as by simp
  moreover have "card ?A \<le> card (set (attendants (as ! 0)))"
    using distinct_card [OF d0] l0 cA by simp
  ultimately have eq: "set (attendants (as ! 0)) = ?A"
    using finA by (intro card_seteq) simp_all
  have p1: "attendant_pool_ids ?clock (?s 1) = []"
    using att [of 1] a12(1) by (simp add: min_def split: if_splits)
  have p2: "attendant_pool_ids ?clock (?s 2) = []"
    using att [of 2] a12(2) by (simp add: min_def split: if_splits)
  show ?thesis using eq l0 a12 p1 p2 by blast
qed

section \<open>Conflict detector: claims\<close>

text \<open>
  Claim C3, as amended. The first loop of the detector stores, for each crew id, the
  flight of its latest sighting (the entry is overwritten at every sighting, also at a
  repeat). At every repeat sighting of an id it emits one \<open>DOUBLE_BOOKING\<close> whose flight
  pair is the flight of the previous sighting of that id and the flight of the repeat,
  with severity \<open>HIGH\<close> when the repeat stands in the captain or first officer slot and
  \<open>MEDIUM\<close> when it stands in the attendant list; a first sighting emits nothing. These
  are all the issues of the detector that are not shortages, in the order of the sightings.
\<close>

theorem double_booking_previous_flight:
  "filter (\<lambda>x. \<not> is_shortage x) (check_schedule_issues as) =
     repeat_issues previous_flight (sightings as)"
  by (simp add: check_schedule_issues_eq repeat_issues_all_bookings shortages_no_booking)

theorem double_booking_previous_flight_witness:
  "filter (\<lambda>x. \<not> is_shortage x) (check_schedule_issues thrice_captain) =
     [DOUBLE_BOOKING ''P001'' [''F1'', ''F2''] ''HIGH'',
      DOUBLE_BOOKING ''P001'' [''F2'', ''F3''] ''HIGH'']"
proof -
  have "filter (\<lambda>x. \<not> is_shortage x) (check_schedule_issues thrice_captain) =
          repeat_issues previous_flight (sightings thrice_captain)"
    by (rule double_booking_previous_flight)
  then show ?thesis by (simp only: thrice_captain_previous_flight)
qed

text \<open>
  The claim as stated pairs every repeat with the first flight the id was seen on. With
  one captain on the flights F1, F2 and F3 the detector pairs the third sighting with
  F2, where the first flight would be F1.
\<close>

theorem double_booking_first_flight_counterexample:
  "check_schedule_issues thrice_captain =
     [DOUBLE_BOOKING ''P001'' [''F1'', ''F2''] ''HIGH'',
      DOUBLE_BOOKING ''P001'' [''F2'', ''F3''] ''HIGH'']
   \<and> repeat_issues first_flight (sightings thrice_captain) =
     [DOUBLE_BOOKING ''P001'' [''F1'', ''F2''] ''HIGH'',
      DOUBLE_BOOKING ''P001'' [''F1'', ''F3''] ''HIGH'']
   \<and> check_schedule_issues thrice_captain \<noteq> repeat_issues first_flight (sightings thrice_captain)"
  by (simp add: thrice_captain_issues thrice_captain_first_flight)

text \<open>
  Claim C5, as amended. The detector runs two loops one after the other, so its result is
  two runs, each in assignment order: first every \<open>DOUBLE_BOOKING\<close>, by assignment and
  within an assignment in the order captain, first officer, attendants; then every
  \<open>CREW_SHORTAGE\<close>, by assignment. Each double booking emitted for the assignment at
  position \<open>i\<close> carries that assignment's flight as the second flight of its pair.
\<close>

theorem issue_order_bookings_then_shortages:
  "check_schedule_issues as =
     concat (map (assignment_bookings as) [0..<length as])
     @ concat (map (\<lambda>i. shortage_of (as ! i)) [0..<length as])
   \<and> (\<forall>i<length as. \<forall>x\<in>set (assignment_bookings as i).
         \<exists>c f sev. x = DOUBLE_BOOKING c [f, flight_id (as ! i)] sev)"
  using shortages_by_position [of as]
  by (simp add: check_schedule_issues_eq bookings_by_assignment assignment_bookings_about)

theorem issue_order_bookings_then_shortages_witness:
  "check_schedule_issues shared_attendant =
     concat (map (assignment_bookings shared_attendant) [0..<2])
     @ concat (map (\<lambda>i. shortage_of (shared_attendant ! i)) [0..<2])
   \<and> (1::nat) < length shared_attendant
   \<and> flight_id (shared_attendant ! 1) = ''F2''
   \<and> assignment_bookings shared_attendant 1 =
       [DOUBLE_BOOKING ''FA001'' [''F1'', ''F2''] ''MEDIUM'']"
proof -
  have len: "length shared_attendant = 2"
    by (simp add: shared_attendant_def)
  have fl: "flight_id (shared_attendant ! 1) = ''F2''"
    by (simp add: shared_attendant_def crewed_flight_def)
  have b1: "assignment_bookings shared_attendant 1 =
              [DOUBLE_BOOKING ''FA001'' [''F1'', ''F2''] ''MEDIUM'']"
    by (simp add: assignment_bookings_def repeat_issue_def previous_flight_def sightings_def
          sightings_of_def pilot_sighting_def shared_attendant_def crewed_flight_def upt_rec)
  from issue_order_bookings_then_shortages [of shared_attendant]
  show ?thesis unfolding len fl using b1 by auto
qed

text \<open>
  The claim as stated puts every issue about an earlier assignment before every issue
  about a later one. For two flights without pilots that share one attendant, the double
  booking raised while the second flight is processed comes first in the result, before
  the shortage of the first flight.
\<close>

theorem issue_order_counterexample:
  "check_schedule_issues shared_attendant =
     [DOUBLE_BOOKING ''FA001'' [''F1'', ''F2''] ''MEDIUM'',
      CREW_SHORTAGE ''F1'' ''captain'' ''CRITICAL'',
      CREW_SHORTAGE ''F2'' ''captain'' ''CRITICAL'']
   \<and> issues_by_assignment shared_attendant =
     [CREW_SHORTAGE ''F1'' ''captain'' ''CRITICAL'',
      DOUBLE_BOOKING ''FA001'' [''F1'', ''F2''] ''MEDIUM'',
      CREW_SHORTAGE ''F2'' ''captain'' ''CRITICAL'']
   \<and> check_schedule_issues shared_attendant \<noteq> issues_by_assignment shared_attendant"
  by (simp add: shared_attendant_issues shared_attendant_by_assignment)

text \<open>
  Claim C6. For every sequence of assignments, the shortage issues of the detector are,
  in assignment order, exactly one \<open>CREW_SHORTAGE\<close> with severity \<open>CRITICAL\<close> for each
  assignment whose captain or first officer is missing, naming \<open>captain\<close> when the
  captain is missing (also when both are) and \<open>first_officer\<close> otherwise. And for every
  roster, batch of flights, clock and random source, \<open>optimize_schedule\<close> returns a
  result (it raises nothing), whose \<open>issues\<close> are the detector's issues for the
  assignments of the same result.
\<close>

theorem shortages_reported_as_issues:
  "filter is_shortage (check_schedule_issues as) =
     map (\<lambda>a. CREW_SHORTAGE (flight_id a)
                 (if \<not> truthy (captain a) then ''captain'' else ''first_officer'')
                 ''CRITICAL'')
       (filter (\<lambda>a. \<not> truthy (captain a) \<or> \<not> truthy (first_officer a)) as)
   \<and> (\<exists>r st'. optimize_schedule clock rng st fls = Inr (r, st')
               \<and> issues r = check_schedule_issues (assignments r))"
proof -
  have "filter is_shortage (check_schedule_issues as) = concat (map shortage_of as)"
    by (simp add: check_schedule_issues_eq repeat_issues_no_shortage shortages_all_shortage)
  moreover have "\<exists>r st'. optimize_schedule clock rng st fls = Inr (r, st')
                   \<and> issues r = check_schedule_issues (assignments r)"
    using optimize_schedule_total [of clock rng st fls] by blast
  ultimately show ?thesis
    by (simp only: shortages_explicit)
qed

theorem shortages_reported_as_issues_witness:
  "filter is_shortage (check_schedule_issues short_flights) =
     [CREW_SHORTAGE ''F1'' ''captain'' ''CRITICAL'',
      CREW_SHORTAGE ''F2'' ''first_officer'' ''CRITICAL'',
      CREW_SHORTAGE ''F3'' ''captain'' ''CRITICAL'']
   \<and> (\<exists>r st'. optimize_schedule (\<lambda>k. 0) (\<lambda>k. 0)
                  \<lparr>crew_members = [], now_calls = 0, random_calls = 0\<rparr>
                  [\<lparr>flight_id = ''F1'', aircraft_id = ''VT-AXB''\<rparr>] = Inr (r, st')
               \<and> issues r = check_schedule_issues (assignments r))"
  using shortages_reported_as_issues [of short_flights "\<lambda>k. 0" "\<lambda>k. 0"
          "\<lparr>crew_members = [], now_calls = 0, random_calls = 0\<rparr>"
          "[\<lparr>flight_id = ''F1'', aircraft_id = ''VT-AXB''\<rparr>]"]
  by (simp add: short_flights_def crewed_flight_def)

section \<open>Crew assignment engine: claims\<close>

lemma small_crew_distinct: "distinct (map crew_id (crew_members small_crew))"
  by (simp add: small_crew_def new_member_def)

lemma small_crew_run:
  "assign_all ticking counting small_crew three_flights =
     Inr ([\<lparr>flight_id = ''F1'', aircraft_id = ''VT-AXB'',
             captain = Some ''P001'', first_officer = Some ''P006'',
             attendants = [''FA001'', ''FA002''], crew_count = 4,
             assignment_time = 12\<rparr>,
           \<lparr>flight_id = ''F2'', aircraft_id = ''VT-BXC'',
             captain = Some ''P003'', first_officer = None, attendants = [],
             crew_count = 1, assignment_time = 22\<rparr>,
           \<lparr>flight_id = ''F3'', aircraft_id = ''VT-CXD'',
             captain = Some ''P004'', first_officer = None, attendants = [],
             crew_count = 1, assignment_time = 32\<rparr>],
          \<lparr>crew_members =
             [\<lparr>crew_id = ''P001'', role = ''pilot'', rest_hours = 0,
                next_available = 54000000008, assigned_flights = [''F1'']\<rparr>,
              \<lparr>crew_id = ''P002'', role = ''pilot'', rest_hours = 0,
                next_available = 0, assigned_flights = []\<rparr>,
              \<lparr>crew_id = ''P003'', role = ''pilot'', rest_hours = 0,
                next_available = 39600000021, assigned_flights = [''F2'']\<rparr>,
              \<lparr>crew_id = ''P004'', role = ''pilot'', rest_hours = 0,
                next_available = 46800000031, assigned_flights = [''F3'']\<rparr>,
              \<lparr>crew_id = ''P005'', role = ''pilot'', rest_hours = 0,
                next_available = 0, assigned_flights = []\<rparr>,
              \<lparr>crew_id = ''P006'', role = ''pilot'', rest_hours = 0,
                next_available = 54000000009, assigned_flights = [''F1'']\<rparr>,
              \<lparr>crew_id = ''FA001'', role = ''attendant'', rest_hours = 0,
                next_available = 54000000010, assigned_flights = [''F1'']\<rparr>,
              \<lparr>crew_id = ''FA002'', role = ''attendant'', rest_hours = 0,
                next_available = 54000000011, assigned_flights = [''F1'']\<rparr>],
           now_calls = 33, random_calls = 9\<rparr>)"
  by code_simp

lemma small_crew_pilot_pools:
  "map (pilot_pool_ids ticking) (batch_states ticking counting small_crew three_flights) =
     [[''P001'', ''P002'', ''P003'', ''P004'', ''P005'', ''P006''],
      [''P002'', ''P003'', ''P004'', ''P005''],
      [''P002'', ''P004'', ''P005''],
      [''P002'', ''P005'']]"
  by code_simp


lemma two_attendants_run:
  "optimize_schedule frozen counting two_attendants three_flights =
     Inr (\<lparr>assignments =
             [\<lparr>flight_id = ''F1'', aircraft_id = ''VT-AXB'', captain = None,
                first_officer = None, attendants = [''FA001'', ''FA002''],
                crew_count = 2, assignment_time = 0\<rparr>,
              \<lparr>flight_id = ''F2'', aircraft_id = ''VT-BXC'', captain = None,
                first_officer = None, attendants = [], crew_count = 0,
                assignment_time = 0\<rparr>,
              \<lparr>flight_id = ''F3'', aircraft_id = ''VT-CXD'', captain = None,
                first_officer = None, attendants = [], crew_count = 0,
                assignment_time = 0\<rparr>],
            issues =
              [CREW_SHORTAGE ''F1'' ''captain'' ''CRITICAL'',
               CREW_SHORTAGE ''F2'' ''captain'' ''CRITICAL'',
               CREW_SHORTAGE ''F3'' ''captain'' ''CRITICAL''],
            summary =
              \<lparr>total_flights_scheduled = 3, total_crew_utilized = 2,
                avg_flights_per_crew = 1, max_flights_per_crew = 1\<rparr>\<rparr>,
          \<lparr>crew_members =
             [\<lparr>crew_id = ''FA001'', role = ''attendant'', rest_hours = 0,
                next_available = 46800000000, assigned_flights = [''F1'']\<rparr>,
              \<lparr>crew_id = ''FA002'', role = ''attendant'', rest_hours = 0,
                next_available = 46800000000, assigned_flights = [''F1'']\<rparr>],
           now_calls = 11, random_calls = 5\<rparr>)"
  by code_simp

lemma two_attendants_pools:
  "map (attendant_pool_ids frozen) (batch_states frozen counting two_attendants three_flights) =
     [[''FA001'', ''FA002''], [], [], []]"
  by code_simp

lemma small_crew_states: "length (batch_states ticking counting small_crew three_flights) = 4"
  using batch_states_steps [of ticking counting small_crew three_flights]
  by (simp add: three_flights_def)

lemma frozen_const: "frozen = (\<lambda>k. 0)"
  by (rule ext) (simp add: frozen_def)

text \<open>
  Claim C7. In a batch run from a roster whose crew ids are pairwise different, for every
  flight: a captain who is assigned is one of the first 5 members of the pilot pool that
  is eligible when the flight is processed, a first officer who is assigned is one of the
  members after the first 5, the two ids differ when both are assigned, and the first
  officer is null when that pool has 5 or fewer members. The run returns one assignment
  per flight and raises nothing.
\<close>

theorem captain_and_first_officer_differ:
  assumes "distinct (map crew_id (crew_members st))"
  shows "\<exists>as st'. assign_all clock rng st fls = Inr (as, st') \<and> length as = length fls
           \<and> (\<forall>k<length fls.
                 (\<forall>c f. captain (as ! k) = Some c \<and> first_officer (as ! k) = Some f \<longrightarrow> c \<noteq> f)
               \<and> (\<forall>c. captain (as ! k) = Some c \<longrightarrow>
                        c \<in> set (take 5 (pilot_pool_ids clock (batch_states clock rng st fls ! k))))
               \<and> (\<forall>f. first_officer (as ! k) = Some f \<longrightarrow>
                        f \<in> set (drop 5 (pilot_pool_ids clock (batch_states clock rng st fls ! k))))
               \<and> (length (pilot_pool_ids clock (batch_states clock rng st fls ! k)) \<le> 5 \<longrightarrow>
                        first_officer (as ! k) = None))"
proof (rule batch_induct [where I = "\<lambda>s. distinct (map crew_id (crew_members s))"])
  fix s fl a s'
  assume d: "distinct (map crew_id (crew_members s))"
    and ok: "assign_crew_to_flight clock rng s fl = Inr (a, s')"
  note p = step_pilots [OF ok]
  have "c \<noteq> f" if "captain a = Some c" "first_officer a = Some f" for c f
    using that p take_drop_disjoint [OF pilot_pool_ids_distinct [OF d]] by blast
  moreover have "distinct (map crew_id (crew_members s'))"
    using d assign_crew_to_flight_ids [OF ok] by simp
  ultimately show "((\<forall>c f. captain a = Some c \<and> first_officer a = Some f \<longrightarrow> c \<noteq> f)
               \<and> (\<forall>c. captain a = Some c \<longrightarrow> c \<in> set (take 5 (pilot_pool_ids clock s)))
               \<and> (\<forall>f. first_officer a = Some f \<longrightarrow> f \<in> set (drop 5 (pilot_pool_ids clock s)))
               \<and> (length (pilot_pool_ids clock s) \<le> 5 \<longrightarrow> first_officer a = None))
             \<and> distinct (map crew_id (crew_members s'))"
    using p by blast
next
  show "distinct (map crew_id (crew_members st))" by (rule assms)
qed

theorem captain_and_first_officer_differ_witness:
  "distinct (map crew_id (crew_members small_crew))
   \<and> (\<exists>as st'. assign_all ticking counting small_crew three_flights = Inr (as, st')
         \<and> captain (as ! 0) = Some ''P001'' \<and> first_officer (as ! 0) = Some ''P006''
         \<and> ''P001'' \<in> set (take 5 (pilot_pool_ids ticking
                                (batch_states ticking counting small_crew three_flights ! 0)))
         \<and> ''P006'' \<in> set (drop 5 (pilot_pool_ids ticking
                                (batch_states ticking counting small_crew three_flights ! 0)))
         \<and> length (pilot_pool_ids ticking
                     (batch_states ticking counting small_crew three_flights ! 1)) \<le> 5
         \<and> first_officer (as ! 1) = None)"
proof -
  let ?s = "\<lambda>k. batch_states ticking counting small_crew three_flights ! k"
  have l3: "length three_flights = 3" by (simp add: three_flights_def)
  from captain_and_first_officer_differ [OF small_crew_distinct, of ticking counting three_flights]
  obtain as st' where run: "assign_all ticking counting small_crew three_flights = Inr (as, st')"
    and props: "\<forall>k<3.
                 (\<forall>c f. captain (as ! k) = Some c \<and> first_officer (as ! k) = Some f \<longrightarrow> c \<noteq> f)
               \<and> (\<forall>c. captain (as ! k) = Some c \<longrightarrow> c \<in> set (take 5 (pilot_pool_ids ticking (?s k))))
               \<and> (\<forall>f. first_officer (as ! k) = Some f \<longrightarrow>
                        f \<in> set (drop 5 (pilot_pool_ids ticking (?s k))))
               \<and> (length (pilot_pool_ids ticking (?s k)) \<le> 5 \<longrightarrow> first_officer (as ! k) = None)"
    unfolding l3 by blast
  have c0: "captain (as ! 0) = Some ''P001''" and f0: "first_officer (as ! 0) = Some ''P006''"
    using run unfolding small_crew_run by auto
  have pe: "pilot_pool_ids ticking (?s 1)
          = map (pilot_pool_ids ticking) (batch_states ticking counting small_crew three_flights) ! 1"
    by (rule nth_map [symmetric]) (simp add: small_crew_states)
  have p1: "length (pilot_pool_ids ticking (?s 1)) \<le> 5"
    unfolding pe small_crew_pilot_pools by simp
  from props c0 f0 p1 have
    "''P001'' \<in> set (take 5 (pilot_pool_ids ticking (?s 0)))"
    "''P006'' \<in> set (drop 5 (pilot_pool_ids ticking (?s 0)))"
    "first_officer (as ! 1) = None"
    by simp_all
  then show ?thesis using small_crew_distinct run c0 f0 p1 by blast
qed



text \<open>
  Claim C9, as amended. Let no reading of \<open>datetime.now()\<close> lie more than 11 hours
  before a reading taken earlier in the run (a clock that never runs backwards is such a
  clock, and so is one that is set back by up to 11 hours). Then along the optimizer
  states a batch passes through (the state before the first flight, between consecutive
  flights, and after the last flight) the recorded \<open>next_available\<close> of every crew
  member never decreases; in particular its value after the batch is at least its value
  before, for the members that were selected and for those that were not. 11 hours is the
  shortest rest period the engine draws.
\<close>

theorem next_available_never_decreases:
  assumes "\<forall>i j. i \<le> j \<longrightarrow> clock i \<le> clock j + hours 11"
  shows "\<exists>as st'. assign_all clock rng st fls = Inr (as, st')
           \<and> batch_states clock rng st fls ! 0 = st
           \<and> batch_states clock rng st fls ! length fls = st'
           \<and> (\<forall>k l. k \<le> l \<and> l \<le> length fls \<longrightarrow>
                 length (crew_members (batch_states clock rng st fls ! l)) = length (crew_members st)
               \<and> (\<forall>p<length (crew_members st).
                     next_available (crew_members (batch_states clock rng st fls ! k) ! p)
                     \<le> next_available (crew_members (batch_states clock rng st fls ! l) ! p)))"
proof -
  let ?s = "\<lambda>k. batch_states clock rng st fls ! k"
  note steps = batch_states_steps [of clock rng st fls]
  have step: "length (crew_members (?s (Suc k))) = length (crew_members (?s k))
       \<and> (\<forall>p<length (crew_members (?s k)).
            next_available (crew_members (?s k) ! p) \<le> next_available (crew_members (?s (Suc k)) ! p))"
    if "k < length fls" for k
  proof -
    from steps that obtain a where
      "assign_crew_to_flight clock rng (?s k) (fls ! k) = Inr (a, ?s (Suc k))" by blast
    then show ?thesis using assms by (rule step_monotone)
  qed
  have len: "length (crew_members (?s l)) = length (crew_members st)" if "l \<le> length fls" for l
    using that
  proof (induction l)
    case 0
    show ?case using steps by simp
  next
    case (Suc l)
    then show ?case using step [of l] by simp
  qed
  have mono: "next_available (crew_members (?s k) ! p) \<le> next_available (crew_members (?s l) ! p)"
    if "k \<le> l" "l \<le> length fls" "p < length (crew_members st)" for k l p
    using that
  proof (induction l)
    case 0
    then show ?case by simp
  next
    case (Suc l)
    show ?case
    proof (cases "k = Suc l")
      case True
      then show ?thesis by simp
    next
      case False
      with Suc.prems have kl: "k \<le> l" "l \<le> length fls" "l < length fls" by simp_all
      have "next_available (crew_members (?s l) ! p) \<le> next_available (crew_members (?s (Suc l)) ! p)"
        using step [OF kl(3)] len [OF kl(2)] Suc.prems(3) by simp
      with Suc.IH [OF kl(1) kl(2) Suc.prems(3)] show ?thesis by simp
    qed
  qed
  from steps obtain as where "assign_all clock rng st fls = Inr (as, ?s (length fls))" by blast
  then show ?thesis using steps len mono by blast
qed

theorem next_available_never_decreases_witness:
  "\<exists>as st'. assign_all ticking counting small_crew three_flights = Inr (as, st')
      \<and> batch_states ticking counting small_crew three_flights ! 0 = small_crew
      \<and> batch_states ticking counting small_crew three_flights ! 3 = st'
      \<and> next_available (crew_members small_crew ! 0) = 0
      \<and> next_available (crew_members st' ! 0) = 54000000008
      \<and> next_available (crew_members small_crew ! 0) \<le> next_available (crew_members st' ! 0)"
proof -
  have mono: "\<forall>i j. i \<le> j \<longrightarrow> ticking i \<le> ticking j + hours 11"
    by (simp add: ticking_def hours_def)
  have l3: "length three_flights = 3" by (simp add: three_flights_def)
  have l8: "(0::nat) < length (crew_members small_crew)" by (simp add: small_crew_def)
  from next_available_never_decreases [OF mono, of counting small_crew three_flights]
  obtain as st' where run: "assign_all ticking counting small_crew three_flights = Inr (as, st')"
    and s0: "batch_states ticking counting small_crew three_flights ! 0 = small_crew"
    and s3: "batch_states ticking counting small_crew three_flights ! 3 = st'"
    and props: "\<forall>k l. k \<le> l \<and> l \<le> 3 \<longrightarrow>
                 (\<forall>p<length (crew_members small_crew).
                     next_available (crew_members (batch_states ticking counting small_crew three_flights ! k) ! p)
                     \<le> next_available (crew_members (batch_states ticking counting small_crew three_flights ! l) ! p))"
    unfolding l3 by blast
  from props [rule_format, of 0 3 0] l8 s0 s3
  have le: "next_available (crew_members small_crew ! 0) \<le> next_available (crew_members st' ! 0)"
    by simp
  have b: "next_available (crew_members small_crew ! 0) = 0"
    by (simp add: small_crew_def new_member_def)
  have a: "next_available (crew_members st' ! 0) = 54000000008"
    using run unfolding small_crew_run by auto
  show ?thesis using run s0 s3 a b le by blast
qed

text \<open>
  The claim as stated has no condition on the clock. Two attendants are free from hour
  100 on; the two readings of the pool filter return hour 100, and the readings taken for
  the update return hour 0, a clock set back by 100 hours. Both attendants are assigned
  to the flight, and their \<open>next_available\<close> falls from hour 100 to hour 13.
\<close>

theorem next_available_decreases_counterexample:
  "map next_available (crew_members rested_late) = [360000000000, 360000000000]
   \<and> assign_all stepping_back counting rested_late one_flight =
       Inr ([\<lparr>flight_id = ''F1'', aircraft_id = ''VT-AXB'', captain = None,
               first_officer = None, attendants = [''FA001'', ''FA002''],
               crew_count = 2, assignment_time = 0\<rparr>],
            \<lparr>crew_members =
               [\<lparr>crew_id = ''FA001'', role = ''attendant'', rest_hours = 0,
                  next_available = 46800000000, assigned_flights = [''F1'']\<rparr>,
                \<lparr>crew_id = ''FA002'', role = ''attendant'', rest_hours = 0,
                  next_available = 46800000000, assigned_flights = [''F1'']\<rparr>],
             now_calls = 5, random_calls = 3\<rparr>)
   \<and> (46800000000::int) < 360000000000"
  by code_simp

text \<open>
  Claim C2, as amended. For a roster with exactly 2 attendants (crew ids pairwise
  different) and a batch of 3 flights processed with a frozen clock, whatever the random
  source draws: the engine returns 3 assignments; the attendants assigned to a flight are
  in the eligible attendant pool of no later flight, because their \<open>next_available\<close> is
  set ahead of the frozen \<open>now\<close>; no attendant id recurs (the three attendant lists
  together hold at most 2 ids and none twice); the conflict detector emits no
  \<open>DOUBLE_BOOKING\<close>, every issue of the result is a shortage. When both attendants are
  free at the frozen \<open>now\<close>, the first assignment lists exactly the two attendants of
  the roster, and for the second and the third flight the eligible attendant pool and the
  attendant list are empty.
\<close>

theorem frozen_clock_no_recurrence:
  assumes "distinct (map crew_id (crew_members st))"
    and "length (filter (\<lambda>c. role c = ''attendant'') (crew_members st)) = 2"
  shows "\<exists>r st'. optimize_schedule (\<lambda>k. now) rng st [f1, f2, f3] = Inr (r, st')
           \<and> length (assignments r) = 3
           \<and> (\<forall>k l. k < l \<and> l < 3 \<longrightarrow>
                 set (attendants (assignments r ! k))
                 \<inter> set (attendant_pool_ids (\<lambda>k. now)
                          (batch_states (\<lambda>k. now) rng st [f1, f2, f3] ! l)) = {})
           \<and> distinct (concat (map attendants (assignments r)))
           \<and> length (concat (map attendants (assignments r))) \<le> 2
           \<and> filter (\<lambda>x. \<not> is_shortage x) (issues r) = []
           \<and> ((\<forall>c\<in>set (crew_members st). role c = ''attendant'' \<longrightarrow> next_available c \<le> now) \<longrightarrow>
                 set (attendants (assignments r ! 0))
                   = crew_id ` {c \<in> set (crew_members st). role c = ''attendant''}
               \<and> length (attendants (assignments r ! 0)) = 2
               \<and> attendants (assignments r ! 1) = []
               \<and> attendants (assignments r ! 2) = []
               \<and> attendant_pool_ids (\<lambda>k. now)
                    (batch_states (\<lambda>k. now) rng st [f1, f2, f3] ! 1) = []
               \<and> attendant_pool_ids (\<lambda>k. now)
                    (batch_states (\<lambda>k. now) rng st [f1, f2, f3] ! 2) = [])"
proof -
  obtain as st' where run: "assign_all (\<lambda>k. now) rng st [f1, f2, f3] = Inr (as, st')"
    and len: "length as = length [f1, f2, f3]"
    using assign_all_total by blast
  note fr = batch_frozen [OF run assms(1)]
  have d: "distinct (concat (map attendants as))"
    unfolding attendants_in_sightings using fr by (simp add: distinct_map_filter)
  have "card (attendant_positions st) = 2"
    using assms(2) by (simp add: attendant_positions_def length_filter_conv_card)
  then have "card ((\<lambda>p. crew_id (crew_members st ! p)) ` attendant_positions st) \<le> 2"
    using card_image_le [of "attendant_positions st" "\<lambda>p. crew_id (crew_members st ! p)"]
    by (simp add: attendant_positions_def)
  moreover have "card (set (concat (map attendants as)))
                  \<le> card ((\<lambda>p. crew_id (crew_members st ! p)) ` attendant_positions st)"
    using fr by (intro card_mono) (simp_all add: attendant_positions_def)
  ultimately have l: "length (concat (map attendants as)) \<le> 2"
    using distinct_card [OF d] by simp
  have nodb: "filter (\<lambda>x. \<not> is_shortage x) (check_schedule_issues as) = []"
    using fr by (simp add: check_schedule_issues_eq repeat_issues_all_bookings
                  shortages_no_booking distinct_no_repeat)
  have pools: "set (attendants (as ! k))
                 \<inter> set (attendant_pool_ids (\<lambda>k. now)
                          (batch_states (\<lambda>k. now) rng st [f1, f2, f3] ! l)) = {}"
    if "k < l \<and> l < 3" for k l
    using frozen_later_pool_disjoint [OF assms(1) run, of k l] that by simp
  have first: "set (attendants (as ! 0))
                   = crew_id ` {c \<in> set (crew_members st). role c = ''attendant''}
               \<and> length (attendants (as ! 0)) = 2
               \<and> attendants (as ! 1) = []
               \<and> attendants (as ! 2) = []
               \<and> attendant_pool_ids (\<lambda>k. now)
                    (batch_states (\<lambda>k. now) rng st [f1, f2, f3] ! 1) = []
               \<and> attendant_pool_ids (\<lambda>k. now)
                    (batch_states (\<lambda>k. now) rng st [f1, f2, f3] ! 2) = []"
    if "\<forall>c\<in>set (crew_members st). role c = ''attendant'' \<longrightarrow> next_available c \<le> now"
    using frozen_all_free_first_flight [OF assms that run] .
  let ?r = "\<lparr>assignments = as, issues = check_schedule_issues as,
             summary = generate_summary as\<rparr>"
  have r: "optimize_schedule (\<lambda>k. now) rng st [f1, f2, f3] = Inr (?r, st')"
    using run by (simp add: optimize_schedule_def)
  have sel: "assignments ?r = as" "issues ?r = check_schedule_issues as"
    by simp_all
  have l3: "length as = 3" using len by simp
  show ?thesis
  proof (intro exI conjI)
    show "optimize_schedule (\<lambda>k. now) rng st [f1, f2, f3] = Inr (?r, st')" by (rule r)
    show "length (assignments ?r) = 3" unfolding sel by (rule l3)
    show "\<forall>k l. k < l \<and> l < 3 \<longrightarrow>
                 set (attendants (assignments ?r ! k))
                 \<inter> set (attendant_pool_ids (\<lambda>k. now)
                          (batch_states (\<lambda>k. now) rng st [f1, f2, f3] ! l)) = {}"
      unfolding sel using pools by blast
    show "distinct (concat (map attendants (assignments ?r)))" unfolding sel by (rule d)
    show "length (concat (map attendants (assignments ?r))) \<le> 2" unfolding sel by (rule l)
    show "filter (\<lambda>x. \<not> is_shortage x) (issues ?r) = []" unfolding sel by (rule nodb)
    show "(\<forall>c\<in>set (crew_members st). role c = ''attendant'' \<longrightarrow> next_available c \<le> now) \<longrightarrow>
                 set (attendants (assignments ?r ! 0))
                   = crew_id ` {c \<in> set (crew_members st). role c = ''attendant''}
               \<and> length (attendants (assignments ?r ! 0)) = 2
               \<and> attendants (assignments ?r ! 1) = []
               \<and> attendants (assignments ?r ! 2) = []
               \<and> attendant_pool_ids (\<lambda>k. now)
                    (batch_states (\<lambda>k. now) rng st [f1, f2, f3] ! 1) = []
               \<and> attendant_pool_ids (\<lambda>k. now)
                    (batch_states (\<lambda>k. now) rng st [f1, f2, f3] ! 2) = []"
      unfolding sel using first by blast
  qed
qed

theorem frozen_clock_no_recurrence_witness:
  "\<exists>r st'. optimize_schedule frozen counting two_attendants three_flights = Inr (r, st')
      \<and> length (assignments r) = 3
      \<and> map attendants (assignments r) = [[''FA001'', ''FA002''], [], []]
      \<and> set (attendants (assignments r ! 0))
          \<inter> set (attendant_pool_ids frozen
                   (batch_states frozen counting two_attendants three_flights ! 1)) = {}
      \<and> distinct (concat (map attendants (assignments r)))
      \<and> length (concat (map attendants (assignments r))) \<le> 2
      \<and> filter (\<lambda>x. \<not> is_shortage x) (issues r) = []
      \<and> set (attendants (assignments r ! 0))
          = crew_id ` {c \<in> set (crew_members two_attendants). role c = ''attendant''}
      \<and> attendant_pool_ids frozen
           (batch_states frozen counting two_attendants three_flights ! 1) = []
      \<and> attendant_pool_ids frozen
           (batch_states frozen counting two_attendants three_flights ! 2) = []"
proof -
  let ?S = "batch_states frozen counting two_attendants three_flights"
  have d: "distinct (map crew_id (crew_members two_attendants))"
    by (simp add: two_attendants_def new_member_def)
  have two: "length (filter (\<lambda>c. role c = ''attendant'') (crew_members two_attendants)) = 2"
    by (simp add: two_attendants_def new_member_def)
  have free: "\<forall>c\<in>set (crew_members two_attendants). role c = ''attendant'' \<longrightarrow> next_available c \<le> 0"
    by (simp add: two_attendants_def new_member_def)
  from frozen_clock_no_recurrence [OF d two, of 0 counting
         "\<lparr>flight_id = ''F1'', aircraft_id = ''VT-AXB''\<rparr>"
         "\<lparr>flight_id = ''F2'', aircraft_id = ''VT-BXC''\<rparr>"
         "\<lparr>flight_id = ''F3'', aircraft_id = ''VT-CXD''\<rparr>"]
  obtain r st' where
    run: "optimize_schedule frozen counting two_attendants three_flights = Inr (r, st')"
    and len: "length (assignments r) = 3"
    and pools: "\<forall>k l. k < l \<and> l < 3 \<longrightarrow>
                 set (attendants (assignments r ! k)) \<inter> set (attendant_pool_ids frozen (?S ! l)) = {}"
    and dist: "distinct (concat (map attendants (assignments r)))"
    and le2: "length (concat (map attendants (assignments r))) \<le> 2"
    and nodb: "filter (\<lambda>x. \<not> is_shortage x) (issues r) = []"
    and first: "(\<forall>c\<in>set (crew_members two_attendants). role c = ''attendant'' \<longrightarrow> next_available c \<le> 0) \<longrightarrow>
                 set (attendants (assignments r ! 0))
                   = crew_id ` {c \<in> set (crew_members two_attendants). role c = ''attendant''}
               \<and> length (attendants (assignments r ! 0)) = 2
               \<and> attendants (assignments r ! 1) = []
               \<and> attendants (assignments r ! 2) = []
               \<and> attendant_pool_ids frozen (?S ! 1) = []
               \<and> attendant_pool_ids frozen (?S ! 2) = []"
    unfolding frozen_const three_flights_def by blast
  from first free have f:
    "set (attendants (assignments r ! 0))
       = crew_id ` {c \<in> set (crew_members two_attendants). role c = ''attendant''}"
    "attendant_pool_ids frozen (?S ! 1) = []" "attendant_pool_ids frozen (?S ! 2) = []"
    by blast+
  from pools have p01:
    "set (attendants (assignments r ! 0)) \<inter> set (attendant_pool_ids frozen (?S ! 1)) = {}"
    by simp
  have m: "map attendants (assignments r) = [[''FA001'', ''FA002''], [], []]"
    using run unfolding two_attendants_run by auto
  show ?thesis
  proof (intro exI conjI)
    show "optimize_schedule frozen counting two_attendants three_flights = Inr (r, st')"
      by (rule run)
  qed (fact len m p01 dist le2 nodb f)+
qed

text \<open>
  The claim as stated keeps both attendants in the eligible pool of all three flights and
  has them recur in every assignment. With two fresh attendants and a clock frozen at their
  time of creation, the attendant pool is empty from the second flight on, the second and
  third assignment have no attendants, and the issues are the three shortages alone.
\<close>

theorem frozen_clock_recurrence_counterexample:
  "map (attendant_pool_ids frozen) (batch_states frozen counting two_attendants three_flights) =
     [[''FA001'', ''FA002''], [], [], []]
   \<and> optimize_schedule frozen counting two_attendants three_flights =
       Inr (\<lparr>assignments =
               [\<lparr>flight_id = ''F1'', aircraft_id = ''VT-AXB'', captain = None,
                  first_officer = None, attendants = [''FA001'', ''FA002''],
                  crew_count = 2, assignment_time = 0\<rparr>,
                \<lparr>flight_id = ''F2'', aircraft_id = ''VT-BXC'', captain = None,
                  first_officer = None, attendants = [], crew_count = 0,
                  assignment_time = 0\<rparr>,
                \<lparr>flight_id = ''F3'', aircraft_id = ''VT-CXD'', captain = None,
                  first_officer = None, attendants = [], crew_count = 0,
                  assignment_time = 0\<rparr>],
              issues =
                [CREW_SHORTAGE ''F1'' ''captain'' ''CRITICAL'',
                 CREW_SHORTAGE ''F2'' ''captain'' ''CRITICAL'',
                 CREW_SHORTAGE ''F3'' ''captain'' ''CRITICAL''],
            summary =
              \<lparr>total_flights_scheduled = 3, total_crew_utilized = 2,
                avg_flights_per_crew = 1, max_flights_per_crew = 1\<rparr>\<rparr>,
            \<lparr>crew_members =
               [\<lparr>crew_id = ''FA001'', role = ''attendant'', rest_hours = 0,
                  next_available = 46800000000, assigned_flights = [''F1'']\<rparr>,
                \<lparr>crew_id = ''FA002'', role = ''attendant'', rest_hours = 0,
                  next_available = 46800000000, assigned_flights = [''F1'']\<rparr>],
             now_calls = 11, random_calls = 5\<rparr>)"
  by (simp only: two_attendants_pools two_attendants_run)

section \<open>Alert pipeline: lemmas\<close>

lemma component_keys:
  "component_key ''Log Processor'' = ''log_processor''"
  "component_key ''Delay Predictor'' = ''delay_predictor''"
  "component_key ''Crew Optimizer'' = ''crew_optimizer''"
  "component_key ''Load Predictor'' = ''load_predictor''"
  "component_key ''Health Monitor'' = ''health_monitor''"
  "component_key ''Route Monitor'' = ''route_monitor''"
  "component_key ''Dashboard'' = ''dashboard''"
  "component_key ''Reporter'' = ''reporter''"
  by code_simp+

lemma construct_with_config: "construct cls [config] = Inl TypeError"
  by (cases cls) (simp_all add: construct_def)

lemma initialize_components_value:
  "initialize_components config =
     Inr [''log_processor'' \<mapsto> None, ''delay_predictor'' \<mapsto> None,
          ''crew_optimizer'' \<mapsto> None, ''load_predictor'' \<mapsto> None,
          ''health_monitor'' \<mapsto> None, ''route_monitor'' \<mapsto> None,
          ''dashboard'' \<mapsto> None, ''reporter'' \<mapsto> None]"
  by (simp add: initialize_components_def component_configs_def initialize_step_def
        construct_with_config component_keys)

lemma init_system_value:
  "init_system config =
     Inr \<lparr>components =
            [''log_processor'' \<mapsto> None, ''delay_predictor'' \<mapsto> None,
             ''crew_optimizer'' \<mapsto> None, ''load_predictor'' \<mapsto> None,
             ''health_monitor'' \<mapsto> None, ''route_monitor'' \<mapsto> None,
             ''dashboard'' \<mapsto> None, ''reporter'' \<mapsto> None],
          flights_data = [], alerts_queue = [],
          invocations = [], sent_alerts = [], critical_log = [], clock_reads = 0\<rparr>"
  by (simp add: init_system_def initialize_components_value)












lemma drain_without_alert_system:
  assumes "components s ''alert_system'' = None"
  shows "drain clock ev s (alert # rest) =
           (Some (KeyError ''alert_system''), s\<lparr>alerts_queue := rest\<rparr>)"
  using assms by (simp add: component_item_def)

lemma init_system_assembled: "init_system config = Inr assembled_system"
  by (simp add: init_system_value assembled_system_def)

section \<open>Alert pipeline: claims\<close>

text \<open>
  Claim C1 fails on the code. \<open>_process_alerts\<close> looks up the key \<open>alert_system\<close> in
  \<open>components\<close>, and \<open>_initialize_components\<close> never stores that key. In the system as
  \<open>__init__\<close> builds it, with one \<open>CRITICAL\<close> event in the queue, the drain takes the
  event from the queue and raises \<open>KeyError\<close>: the event is not forwarded to the alert
  sink, no line is appended to the critical log, and the exception leaves the method.
\<close>

theorem process_alerts_raises_key_error:
  "init_system config = Inr assembled_system
   \<and> process_alerts clock ev (assembled_system\<lparr>alerts_queue := [critical_event]\<rparr>) =
       (Some (KeyError ''alert_system''), assembled_system)
   \<and> is_critical critical_event
   \<and> sent_alerts assembled_system = [] \<and> critical_log assembled_system = []"
proof -
  have "components (assembled_system\<lparr>alerts_queue := [critical_event]\<rparr>) ''alert_system'' = None"
    by (simp add: assembled_system_def)
  then have "drain clock ev (assembled_system\<lparr>alerts_queue := [critical_event]\<rparr>) [critical_event] =
       (Some (KeyError ''alert_system''),
        assembled_system\<lparr>alerts_queue := [critical_event]\<rparr>\<lparr>alerts_queue := []\<rparr>)"
    by (rule drain_without_alert_system)
  then have "process_alerts clock ev (assembled_system\<lparr>alerts_queue := [critical_event]\<rparr>) =
       (Some (KeyError ''alert_system''), assembled_system\<lparr>alerts_queue := []\<rparr>)"
    by (simp add: process_alerts_def del: drain.simps)
  moreover have "assembled_system\<lparr>alerts_queue := []\<rparr> = assembled_system"
    by (simp add: assembled_system_def)
  moreover have "is_critical critical_event"
    by (simp add: is_critical_def critical_event_def)
  ultimately show ?thesis
    by (simp add: init_system_assembled) (simp add: assembled_system_def)
qed

text \<open>
  Claim C4. \<open>CrewOptimizer(config)\<close> raises \<open>TypeError\<close>, and \<open>__init__\<close> ends with
  \<open>None\<close> stored under \<open>crew_optimizer\<close>. In every state with these components, an
  iteration of the crew producer and the crew step of the single analysis return the
  state as it was: no call of the optimizer is recorded and no alert is put on the queue.
  A crew producer loop that has ended has left the state as it was.
\<close>

theorem crew_optimizer_never_invoked:
  "construct CrewOptimizer [config] = Inl TypeError
   \<and> (\<exists>s0. init_system config = Inr s0 \<and> components s0 ''crew_optimizer'' = Some None
         \<and> iteration clock ev Crew k (s\<lparr>components := components s0\<rparr>)
             = Inr (s\<lparr>components := components s0\<rparr>)
         \<and> single_analysis_crew_step ev k (s\<lparr>components := components s0\<rparr>)
             = (None, s\<lparr>components := components s0\<rparr>)
         \<and> (producer_loop clock ev Crew running fuel k (s\<lparr>components := components s0\<rparr>) = None
            \<or> (\<exists>n. producer_loop clock ev Crew running fuel k (s\<lparr>components := components s0\<rparr>)
                     = Some (Inr (n, s\<lparr>components := components s0\<rparr>)))))"
proof -
  let ?s = "s\<lparr>components := components assembled_system\<rparr>"
  have c: "components ?s ''crew_optimizer'' = Some None"
    by (simp add: assembled_system_def)
  have it: "iteration clock ev Crew j ?s = Inr ?s" for j
    using c by (simp add: iteration_def except_Exception_def optimize_crew_try_def
                  component_item_def)
  have sa: "single_analysis_crew_step ev k ?s = (None, ?s)"
    using c by (simp add: single_analysis_crew_step_def component_item_def)
  have loop: "producer_loop clock ev Crew running fuel j ?s = None
            \<or> (\<exists>n. producer_loop clock ev Crew running fuel j ?s = Some (Inr (n, ?s)))" for j
  proof (induction fuel arbitrary: j)
    case 0
    show ?case by simp
  next
    case (Suc fuel)
    show ?case using Suc [of "Suc j"] it [of j] by (cases "running j") auto
  qed
  have c0: "components assembled_system ''crew_optimizer'' = Some None"
    by (simp add: assembled_system_def)
  show ?thesis
    using it [of k] sa loop [of k] c0
    by (simp add: construct_with_config init_system_assembled)
qed

theorem crew_optimizer_never_invoked_witness:
  "construct CrewOptimizer [()] = Inl TypeError
   \<and> (\<exists>s0. init_system () = Inr s0 \<and> components s0 ''crew_optimizer'' = Some None
         \<and> iteration frozen failing_evaluators Crew 0 (staffed_system\<lparr>components := components s0\<rparr>)
             = Inr (staffed_system\<lparr>components := components s0\<rparr>)
         \<and> invocations (staffed_system\<lparr>components := components s0\<rparr>) = []
         \<and> alerts_queue (staffed_system\<lparr>components := components s0\<rparr>) = [])"
proof -
  from crew_optimizer_never_invoked [of "()" frozen failing_evaluators 0 staffed_system three_ticks 4]
  obtain s0 where "construct CrewOptimizer [()] = Inl TypeError"
    "init_system () = Inr s0" "components s0 ''crew_optimizer'' = Some None"
    "iteration frozen failing_evaluators Crew 0 (staffed_system\<lparr>components := components s0\<rparr>)
             = Inr (staffed_system\<lparr>components := components s0\<rparr>)"
    by blast
  moreover have "invocations (staffed_system\<lparr>components := components s0\<rparr>) = []"
    "alerts_queue (staffed_system\<lparr>components := components s0\<rparr>) = []"
    by (simp_all add: staffed_system_def)
  ultimately show ?thesis by blast
qed




end
